theory Spec2Isabelle
  imports Main "HOL-Library.AList"
begin

section \<open>The COLMAP -> Brush pipeline script (3dgs-colmap-brush.py)\<close>

text \<open>
  The script validates two paths, builds the argument lists of four COLMAP invocations and
  one Brush invocation, runs them one after the other through \<open>run_command\<close>, and checks
  the file system between them. The model below follows the sections of \<open>main\<close> in the
  order of the source. The operating system is explicit: the file system is a tree, the
  child processes are a parameter (\<open>world\<close>), and every effect of the script (a log line,
  a child process, a directory made, a file copied) is appended to a trace.
\<close>

subsection \<open>Strings\<close>

text \<open>\<open>str(n)\<close> for a Python int: decimal digits, with a leading minus sign.\<close>

fun str_nat :: "nat \<Rightarrow> string" where
  "str_nat n = (if n < 10 then [''0123456789'' ! n]
                else str_nat (n div 10) @ [''0123456789'' ! (n mod 10)])"

declare str_nat.simps [simp del]

definition str_int :: "int \<Rightarrow> string" where
  "str_int i = (if i < 0 then CHR ''-'' # str_nat (nat (- i)) else str_nat (nat i))"

text \<open>\<open>sep.join(xs)\<close>.\<close>

fun join :: "string \<Rightarrow> string list \<Rightarrow> string" where
  "join sep [] = []"
| "join sep [x] = x"
| "join sep (x # y # ys) = x @ sep @ join sep (y # ys)"

text \<open>\<open>str.lower()\<close> on ASCII text (a \<open>char\<close> is a byte; letters beyond ASCII are left alone).\<close>

definition lower_char :: "char \<Rightarrow> char" where
  "lower_char c =
     (case map_of (zip ''ABCDEFGHIJKLMNOPQRSTUVWXYZ'' ''abcdefghijklmnopqrstuvwxyz'') c of
        Some l \<Rightarrow> l
      | None \<Rightarrow> c)"

definition lower :: "string \<Rightarrow> string" where
  "lower s = map lower_char s"

text \<open>
  \<open>fnmatch\<close> as \<open>Path.glob\<close> uses it on one path component on POSIX: case-sensitive,
  \<open>*\<close> matches any run of characters (a leading dot too) and \<open>?\<close> any one character.
  Bracket classes are not modelled (a \<open>[\<close> stands for itself).
\<close>

fun fnmatch :: "string \<Rightarrow> string \<Rightarrow> bool" where
  "fnmatch [] n = (n = [])"
| "fnmatch (p # ps) n =
     (if p = CHR ''*'' then
        (fnmatch ps n \<or> (case n of [] \<Rightarrow> False | c # n' \<Rightarrow> fnmatch (p # ps) n'))
      else (case n of [] \<Rightarrow> False | c # n' \<Rightarrow> (p = CHR ''?'' \<or> p = c) \<and> fnmatch ps n'))"

subsection \<open>Paths\<close>

text \<open>
  A \<open>pathlib.Path\<close> is the list of its parts; an absolute path starts with the part \<open>/\<close>.
  \<open>p / name\<close> appends one part.
\<close>

type_synonym path = "string list"

definition joinpath :: "path \<Rightarrow> string \<Rightarrow> path" where
  "joinpath p name = p @ [name]"

definition path_str :: "path \<Rightarrow> string" where
  "path_str p = (case p of [] \<Rightarrow> ''.''
                 | x # r \<Rightarrow> if x = ''/'' then ''/'' @ join ''/'' r else join ''/'' p)"

definition path_name :: "path \<Rightarrow> string" where
  "path_name p = (if p = [] then [] else last p)"

text \<open>
  \<open>PurePath.suffix\<close> (Python up to 3.12): \<open>i = name.rfind('.')\<close>, and the suffix is
  \<open>name[i:]\<close> when \<open>0 < i < len(name) - 1\<close>, the empty string otherwise.
\<close>

definition suffix_of_name :: "string \<Rightarrow> string" where
  "suffix_of_name name =
     (let r = takeWhile (\<lambda>c. c \<noteq> CHR ''.'') (rev name) in
      if length r = length name then []
      else (let i = length name - length r - 1 in
            if 0 < i \<and> i < length name - 1 then drop i name else []))"

definition suffix :: "path \<Rightarrow> string" where
  "suffix p = suffix_of_name (path_name p)"

text \<open>\<open>Path(s)\<close> for a string: split at \<open>/\<close>, empty parts and \<open>.\<close> dropped.\<close>

fun split_on :: "char \<Rightarrow> string \<Rightarrow> string list" where
  "split_on c [] = [[]]"
| "split_on c (x # xs) =
     (if x = c then [] # split_on c xs
      else (case split_on c xs of [] \<Rightarrow> [[x]] | h # t \<Rightarrow> (x # h) # t))"

definition Path :: "string \<Rightarrow> path" where
  "Path s = (case s of [] \<Rightarrow> [] | c # _ \<Rightarrow> if c = CHR ''/'' then [''/''] else [])
            @ filter (\<lambda>part. part \<noteq> [] \<and> part \<noteq> ''.'') (split_on CHR ''/'' s)"

subsection \<open>The file system\<close>

text \<open>
  A regular file with its content, or a directory with its entries in the order a scan
  yields them. Every path is resolved from one root, the working directory; links,
  permissions and a full disk are outside the model.
\<close>

datatype node = File string | Dir "(string \<times> node) list"

datatype py_exn = FileExistsError | FileNotFoundError | NotADirectoryError
  | IsADirectoryError | SameFileError | IndexError

fun walk :: "node \<Rightarrow> path \<Rightarrow> py_exn + node" where
  "walk n [] = Inr n"
| "walk (File c) (x # p) = Inl NotADirectoryError"
| "walk (Dir es) (x # p) =
     (case map_of es x of None \<Rightarrow> Inl FileNotFoundError | Some c \<Rightarrow> walk c p)"

definition exists :: "node \<Rightarrow> path \<Rightarrow> bool" where
  "exists t p = (case walk t p of Inr _ \<Rightarrow> True | Inl _ \<Rightarrow> False)"

definition is_file :: "node \<Rightarrow> path \<Rightarrow> bool" where
  "is_file t p = (case walk t p of Inr (File _) \<Rightarrow> True | _ \<Rightarrow> False)"

definition is_dir :: "node \<Rightarrow> path \<Rightarrow> bool" where
  "is_dir t p = (case walk t p of Inr (Dir _) \<Rightarrow> True | _ \<Rightarrow> False)"

text \<open>\<open>Path.iterdir\<close>: the entries of a directory; it raises on anything else.\<close>

definition iterdir :: "node \<Rightarrow> path \<Rightarrow> py_exn + path list" where
  "iterdir t d = (case walk t d of
       Inr (Dir es) \<Rightarrow> Inr (map (joinpath d) (remdups (map fst es)))
     | Inr (File _) \<Rightarrow> Inl NotADirectoryError
     | Inl e \<Rightarrow> Inl e)"

text \<open>
  \<open>Path.glob(pattern)\<close> for a pattern of one component: the entries whose name matches,
  files and directories alike; nothing when the path is not a directory.
\<close>

definition glob :: "node \<Rightarrow> path \<Rightarrow> string \<Rightarrow> path list" where
  "glob t d pat = (case walk t d of
       Inr (Dir es) \<Rightarrow> map (joinpath d) (filter (fnmatch pat) (remdups (map fst es)))
     | _ \<Rightarrow> [])"

text \<open>Writing a node at a path whose parent is a directory.\<close>

fun put :: "path \<Rightarrow> node \<Rightarrow> node \<Rightarrow> node" where
  "put [] v n = v"
| "put (x # p) v (File c) = File c"
| "put (x # p) v (Dir es) =
     (case map_of es x of
        Some c \<Rightarrow> Dir (AList.update x (put p v c) es)
      | None \<Rightarrow> if p = [] then Dir (AList.update x v es) else Dir es)"

text \<open>\<open>Path.mkdir(exist_ok=True)\<close>: the parent has to be there.\<close>

definition mkdir_exist_ok :: "node \<Rightarrow> path \<Rightarrow> py_exn + node" where
  "mkdir_exist_ok t p = (case walk t p of
       Inr (Dir _) \<Rightarrow> Inr t
     | Inr (File _) \<Rightarrow> Inl FileExistsError
     | Inl _ \<Rightarrow> (case walk t (butlast p) of
           Inr (Dir _) \<Rightarrow> Inr (put p (Dir []) t)
         | Inr (File _) \<Rightarrow> Inl NotADirectoryError
         | Inl e \<Rightarrow> Inl e))"

text \<open>
  \<open>Path.mkdir(parents=True, exist_ok=True)\<close>: every missing part of the path is made,
  from the root down; \<open>mkdirs t pre rest\<close> has reached the directory \<open>pre\<close>.
\<close>

fun mkdirs :: "node \<Rightarrow> path \<Rightarrow> path \<Rightarrow> py_exn + node" where
  "mkdirs t pre [] = Inr t"
| "mkdirs t pre (x # rest) =
     (case walk t (pre @ [x]) of
        Inr (Dir _) \<Rightarrow> mkdirs t (pre @ [x]) rest
      | Inr (File _) \<Rightarrow> Inl (if rest = [] then FileExistsError else NotADirectoryError)
      | Inl _ \<Rightarrow> mkdirs (put (pre @ [x]) (Dir []) t) (pre @ [x]) rest)"

definition mkdir_parents :: "node \<Rightarrow> path \<Rightarrow> py_exn + node" where
  "mkdir_parents t p = (case walk t [] of Inr (Dir _) \<Rightarrow> mkdirs t [] p
                        | _ \<Rightarrow> Inl NotADirectoryError)"

text \<open>
  \<open>shutil.copy2(src, dst)\<close>: a directory as \<open>dst\<close> means the file of the same name in it;
  source and target being one file is refused; then the source is read and the target
  written.
\<close>

definition copy2 :: "node \<Rightarrow> path \<Rightarrow> path \<Rightarrow> py_exn + node" where
  "copy2 t src dst =
     (let dst' = (if is_dir t dst then joinpath dst (path_name src) else dst) in
      if exists t src \<and> dst' = src then Inl SameFileError
      else (case walk t src of
          Inl e \<Rightarrow> Inl e
        | Inr (Dir _) \<Rightarrow> Inl IsADirectoryError
        | Inr (File c) \<Rightarrow>
            (case walk t dst' of
               Inr (Dir _) \<Rightarrow> Inl IsADirectoryError
             | _ \<Rightarrow> (case walk t (butlast dst') of
                   Inr (Dir _) \<Rightarrow> Inr (put dst' (File c) t)
                 | Inr (File _) \<Rightarrow> Inl NotADirectoryError
                 | Inl e \<Rightarrow> Inl e))))"

subsection \<open>The world outside the script\<close>

text \<open>
  \<open>subprocess.run\<close> either finds no executable, or the child runs, leaves a file system
  behind and returns a code. \<open>which\<close> is \<open>shutil.which\<close> (true when it finds the name) and
  \<open>environ\<close> is \<open>os.environ\<close>.
\<close>

type_synonym env = "string \<Rightarrow> string option"

datatype proc_result = NotFound | Returned int node

record world =
  spawn :: "string list \<Rightarrow> env \<Rightarrow> node \<Rightarrow> proc_result"
  which :: "node \<Rightarrow> string \<Rightarrow> bool"
  environ :: env

subsection \<open>The state of a run and its trace\<close>

datatype level = INFO | WARNING | ERROR

datatype outcome = Missing | Exited int

datatype event =
    Log level string
  | Spawn "string list" "env option" outcome
  | Mkdir path
  | Copy path path

text \<open>
  \<open>fs\<close> is the file system, \<open>trace\<close> the effects so far, oldest first, and
  \<open>colmap_mask_args\<close> the local variable of \<open>main\<close> that carries the mask arguments from
  the detection to the feature extraction.
\<close>

record st =
  fs :: node
  trace :: "event list"
  colmap_mask_args :: "string list"

text \<open>
  How a piece of the script ends: it falls through to the next statement, it calls
  \<open>sys.exit(n)\<close>, or an exception nobody catches leaves it.
\<close>

datatype res = Ok | SysExit int | Raised py_exn

type_synonym stage = "st \<Rightarrow> res \<times> st"

text \<open>The exit status of the process: an uncaught exception ends Python with status 1.\<close>

definition exit_status :: "res \<Rightarrow> int" where
  "exit_status r = (case r of Ok \<Rightarrow> 0 | SysExit n \<Rightarrow> n | Raised _ \<Rightarrow> 1)"

definition emit :: "event \<Rightarrow> st \<Rightarrow> st" where
  "emit e s = s\<lparr>trace := trace s @ [e]\<rparr>"

definition info :: "string \<Rightarrow> stage" where
  "info msg s = (Ok, emit (Log INFO msg) s)"

definition warning :: "string \<Rightarrow> stage" where
  "warning msg s = (Ok, emit (Log WARNING msg) s)"

text \<open>\<open>logger.error(msg); sys.exit(1)\<close>.\<close>

definition error_exit :: "string \<Rightarrow> stage" where
  "error_exit msg s = (SysExit 1, emit (Log ERROR msg) s)"

text \<open>Statements one after the other: the first that does not fall through ends the run.\<close>

primrec seq :: "stage list \<Rightarrow> stage" where
  "seq [] s = (Ok, s)"
| "seq (m # ms) s = (case m s of (Ok, s') \<Rightarrow> seq ms s' | (r, s') \<Rightarrow> (r, s'))"

definition do_mkdir :: "bool \<Rightarrow> path \<Rightarrow> stage" where
  "do_mkdir parents p s =
     (case (if parents then mkdir_parents (fs s) p else mkdir_exist_ok (fs s) p) of
        Inl e \<Rightarrow> (Raised e, s)
      | Inr t \<Rightarrow> (Ok, (emit (Mkdir p) s)\<lparr>fs := t\<rparr>))"

subsection \<open>run_command\<close>

text \<open>
  The command is logged, then run. \<open>CalledProcessError\<close> (a non-zero code under
  \<open>check\<close>) and \<open>FileNotFoundError\<close> are the two exceptions caught: each logs an error and
  exits. \<open>subprocess.run\<close> on an empty list raises \<open>IndexError\<close>. The
  \<open>CompletedProcess\<close> returned is used by no caller and is left out.
\<close>

definition run_command :: "world \<Rightarrow> string list \<Rightarrow> bool \<Rightarrow> env option \<Rightarrow> stage" where
  "run_command w cmd check env s =
     (let cmd_str = join '' '' cmd;
          s1 = emit (Log INFO (''Running: '' @ cmd_str)) s
      in case cmd of
           [] \<Rightarrow> (Raised IndexError, s1)
         | exe # _ \<Rightarrow>
            (case spawn w cmd (case env of None \<Rightarrow> environ w | Some e \<Rightarrow> e) (fs s1) of
               NotFound \<Rightarrow>
                 error_exit (''Command not found: '' @ exe) (emit (Spawn cmd env Missing) s1)
             | Returned rc t \<Rightarrow>
                 (let s2 = (emit (Spawn cmd env (Exited rc)) s1)\<lparr>fs := t\<rparr> in
                  if check \<and> rc \<noteq> 0 then
                    (SysExit rc,
                     emit (Log ERROR (''Command failed with exit code '' @ str_int rc
                                      @ '': '' @ cmd_str)) s2)
                  else (Ok, s2))))"

subsection \<open>count_images\<close>

definition extensions :: "string list" where
  "extensions = [''.jpg'', ''.jpeg'', ''.png'', ''.tif'', ''.tiff'']"

definition count_images :: "node \<Rightarrow> path \<Rightarrow> py_exn + nat" where
  "count_images t directory = (case iterdir t directory of
       Inl e \<Rightarrow> Inl e
     | Inr ps \<Rightarrow> Inr (length (filter (\<lambda>p. lower (suffix p) \<in> set extensions \<and> is_file t p) ps)))"

subsection \<open>The parsed command line\<close>

text \<open>
  The namespace \<open>parse_args\<close> returns. A path option that was not given is \<open>None\<close>, and so
  is the device when neither the command line nor the configuration names one.
\<close>

record args =
  project_dir :: path
  images_dir :: path
  colmap_bin :: string
  brush_bin :: string
  masks_dir :: "path option"
  mask_ext :: string
  dense_masks_dir :: "path option"
  sfm_max_image_size :: int
  sift_max_num_features :: int
  undistort_max_image_size :: int
  camera_model :: string
  single_camera :: int
  min_num_matches :: int
  refine_focal_length :: int
  refine_extra_params :: int
  refine_principal_point :: int
  run_brush :: int
  brush_total_steps :: int
  brush_max_splats :: int
  brush_export_every :: int
  brush_eval_split_every :: int
  brush_export_name :: string
  cubecl_default_device :: "string option"

definition brush_max_resolution :: "args \<Rightarrow> int" where
  "brush_max_resolution a = undistort_max_image_size a"

definition db_path :: "args \<Rightarrow> path" where
  "db_path a = joinpath (project_dir a) ''database.db''"

definition sparse_dir :: "args \<Rightarrow> path" where
  "sparse_dir a = joinpath (project_dir a) ''sparse''"

definition dense_dir :: "args \<Rightarrow> path" where
  "dense_dir a = joinpath (project_dir a) ''dense''"

definition brush_export_dir :: "args \<Rightarrow> path" where
  "brush_export_dir a = joinpath (project_dir a) ''brush_exports''"

definition brush_data_path :: "args \<Rightarrow> path" where
  "brush_data_path a = joinpath (dense_dir a) ''0''"

definition brush_images_path :: "args \<Rightarrow> path" where
  "brush_images_path a = joinpath (brush_data_path a) ''images''"

definition brush_sparse_path :: "args \<Rightarrow> path" where
  "brush_sparse_path a = joinpath (brush_data_path a) ''sparse''"

definition brush_masks_path :: "args \<Rightarrow> path" where
  "brush_masks_path a = joinpath (brush_data_path a) ''masks''"

subsection \<open>The argument lists\<close>

definition cmd_feature :: "args \<Rightarrow> string list \<Rightarrow> string list" where
  "cmd_feature a mask_args =
     [colmap_bin a, ''feature_extractor'',
      ''--database_path'', path_str (db_path a),
      ''--image_path'', path_str (images_dir a),
      ''--ImageReader.single_camera'', str_int (single_camera a),
      ''--ImageReader.camera_model'', camera_model a,
      ''--SiftExtraction.use_gpu'', ''1'',
      ''--SiftExtraction.max_image_size'', str_int (sfm_max_image_size a),
      ''--SiftExtraction.max_num_features'', str_int (sift_max_num_features a)]
     @ mask_args"

definition cmd_match :: "args \<Rightarrow> string list" where
  "cmd_match a =
     [colmap_bin a, ''exhaustive_matcher'',
      ''--database_path'', path_str (db_path a),
      ''--SiftMatching.use_gpu'', ''1'']"

definition cmd_mapper :: "args \<Rightarrow> string list" where
  "cmd_mapper a =
     [colmap_bin a, ''mapper'',
      ''--database_path'', path_str (db_path a),
      ''--image_path'', path_str (images_dir a),
      ''--output_path'', path_str (sparse_dir a),
      ''--Mapper.min_num_matches'', str_int (min_num_matches a),
      ''--Mapper.ba_refine_focal_length'', str_int (refine_focal_length a),
      ''--Mapper.ba_refine_extra_params'', str_int (refine_extra_params a),
      ''--Mapper.ba_refine_principal_point'', str_int (refine_principal_point a)]"

definition cmd_undistort :: "args \<Rightarrow> string list" where
  "cmd_undistort a =
     [colmap_bin a, ''image_undistorter'',
      ''--image_path'', path_str (images_dir a),
      ''--input_path'', path_str (joinpath (sparse_dir a) ''0''),
      ''--output_path'', path_str (dense_dir a),
      ''--output_type'', ''COLMAP'',
      ''--max_image_size'', str_int (undistort_max_image_size a)]"

definition cmd_brush :: "args \<Rightarrow> string list" where
  "cmd_brush a =
     [brush_bin a, path_str (brush_data_path a),
      ''--total-steps'', str_int (brush_total_steps a),
      ''--max-resolution'', str_int (brush_max_resolution a),
      ''--max-splats'', str_int (brush_max_splats a),
      ''--eval-split-every'', str_int (brush_eval_split_every a),
      ''--export-every'', str_int (brush_export_every a),
      ''--export-path'', path_str (brush_export_dir a),
      ''--export-name'', brush_export_name a,
      ''--eval-every'', str_int (brush_export_every a),
      ''--eval-save-to-disk'']"

text \<open>
  \<open>env = os.environ.copy()\<close>, with \<open>CUBECL_DEFAULT_DEVICE\<close> set when the device is
  truthy: given and not the empty string.
\<close>

definition device_given :: "args \<Rightarrow> bool" where
  "device_given a = (case cubecl_default_device a of None \<Rightarrow> False | Some d \<Rightarrow> d \<noteq> [])"

definition brush_env :: "world \<Rightarrow> args \<Rightarrow> env" where
  "brush_env w a = (case cubecl_default_device a of
       None \<Rightarrow> environ w
     | Some d \<Rightarrow> if d \<noteq> [] then (environ w)(''CUBECL_DEFAULT_DEVICE'' \<mapsto> d) else environ w)"

subsection \<open>main, section by section\<close>

text \<open>CHECKS and SETUP (lines 102 to 118).\<close>

definition checks_and_setup :: "args \<Rightarrow> stage" where
  "checks_and_setup a s =
     (if \<not> exists (fs s) (images_dir a) then
        error_exit (''IMAGES_DIR does not exist: '' @ path_str (images_dir a)) s
      else seq [do_mkdir True (project_dir a),
                do_mkdir False (sparse_dir a),
                do_mkdir False (dense_dir a),
                info (''Project: '' @ path_str (project_dir a)),
                info (''Images:  '' @ path_str (images_dir a))] s)"

text \<open>
  AUTO MASK DETECTION (lines 123 to 139). \<open>is_mask\<close> is the condition of the generator
  that counts the masks.
\<close>

definition is_mask :: "node \<Rightarrow> string \<Rightarrow> path \<Rightarrow> bool" where
  "is_mask t ext p = (is_file t p \<and> lower (suffix p) = lower (''.'' @ ext))"

definition no_masks_msg :: string where
  "no_masks_msg = ''No COLMAP masks configured/found. Continuing without masks.''"

definition auto_mask_detection :: "args \<Rightarrow> stage" where
  "auto_mask_detection a s =
     (let s0 = s\<lparr>colmap_mask_args := []\<rparr> in
      case masks_dir a of
        None \<Rightarrow> info no_masks_msg s0
      | Some md \<Rightarrow>
          if exists (fs s0) md then
            (case count_images (fs s0) (images_dir a) of
               Inl e \<Rightarrow> (Raised e, s0)
             | Inr img_count \<Rightarrow>
                (case iterdir (fs s0) md of
                   Inl e \<Rightarrow> (Raised e, s0)
                 | Inr ps \<Rightarrow>
                    (let mask_count = length (filter (is_mask (fs s0) (mask_ext a)) ps) in
                     if mask_count > 0 then
                       seq ([info (''Masks detected for COLMAP: '' @ str_nat mask_count
                                   @ '' mask(s). Using masks for feature extraction.'')]
                            @ (if img_count > 0 \<and> mask_count < img_count then
                                 [warning (''Fewer masks than images. Images without masks ''
                                           @ ''will be processed without masking.'')]
                               else []))
                           (s0\<lparr>colmap_mask_args := [''--ImageReader.mask_path'', path_str md]\<rparr>)
                     else
                       warning (''MASKS_DIR exists ('' @ path_str md
                                @ '') but no files with extension .'' @ mask_ext a
                                @ '' found.'') s0)))
          else info no_masks_msg s0)"

text \<open>1) Feature Extraction (lines 145 to 157).\<close>

definition feature_extraction :: "world \<Rightarrow> args \<Rightarrow> stage" where
  "feature_extraction w a =
     seq [info ''1/5 COLMAP: feature extraction'',
          (\<lambda>s. run_command w (cmd_feature a (colmap_mask_args s)) True None s)]"

text \<open>2) Matching (lines 162 to 168).\<close>

definition matching :: "world \<Rightarrow> args \<Rightarrow> stage" where
  "matching w a =
     seq [info ''2/5 COLMAP: exhaustive matching'',
          run_command w (cmd_match a) True None]"

text \<open>3) Sparse Reconstruction, with the check of its result (lines 173 to 189).\<close>

definition check_mapping_result :: "args \<Rightarrow> stage" where
  "check_mapping_result a s =
     (if \<not> exists (fs s) (joinpath (sparse_dir a) ''0'') then
        error_exit (''Sparse model not found at '' @ path_str (joinpath (sparse_dir a) ''0'')
                    @ ''. Mapper may have failed.'') s
      else (Ok, s))"

definition sparse_reconstruction :: "world \<Rightarrow> args \<Rightarrow> stage" where
  "sparse_reconstruction w a =
     seq [info ''3/5 COLMAP: mapper (sparse SfM)'',
          run_command w (cmd_mapper a) True None,
          check_mapping_result a]"

text \<open>4) Undistort, with the check of its result (lines 194 to 215).\<close>

definition check_undistort_result :: "args \<Rightarrow> stage" where
  "check_undistort_result a s =
     (if \<not> exists (fs s) (brush_images_path a) \<or> \<not> exists (fs s) (brush_sparse_path a) then
        error_exit (''Expected '' @ path_str (brush_images_path a) @ '' and ''
                    @ path_str (brush_sparse_path a) @ '' to exist after undistort.'') s
      else (Ok, s))"

definition undistort :: "world \<Rightarrow> args \<Rightarrow> stage" where
  "undistort w a =
     seq [info ''4/5 COLMAP: image_undistorter (creates dense/0/images + dense/0/sparse)'',
          run_command w (cmd_undistort a) True None,
          check_undistort_result a,
          info (''Dataset for Brush: '' @ path_str (brush_data_path a))]"

text \<open>4b) Optional dense masks (lines 220 to 234).\<close>

fun copy_masks :: "path \<Rightarrow> path list \<Rightarrow> stage" where
  "copy_masks target [] s = (Ok, s)"
| "copy_masks target (mask_file # rest) s =
     (case copy2 (fs s) mask_file (joinpath target (path_name mask_file)) of
        Inl e \<Rightarrow> (Raised e, s)
      | Inr t \<Rightarrow>
          copy_masks target rest
            ((emit (Copy mask_file (joinpath target (path_name mask_file))) s)\<lparr>fs := t\<rparr>))"

definition dense_masks_step :: "args \<Rightarrow> stage" where
  "dense_masks_step a s =
     (case dense_masks_dir a of
        None \<Rightarrow> info ''No undistorted masks configured for Brush (DENSE_MASKS_DIR empty).'' s
      | Some d \<Rightarrow>
          if exists (fs s) d then
            (let dense_masks = glob (fs s) d (''*.'' @ mask_ext a) in
             if dense_masks \<noteq> [] then
               seq [info (''Copying undistorted masks into dataset for Brush -> ''
                          @ path_str (brush_masks_path a)),
                    do_mkdir False (brush_masks_path a),
                    copy_masks (brush_masks_path a) dense_masks,
                    info (''Brush masks ready: '' @ str_nat (length dense_masks)
                          @ '' file(s) copied.'')] s
             else warning (''DENSE_MASKS_DIR provided but no *.'' @ mask_ext a
                           @ '' files found.'') s)
          else warning (''DENSE_MASKS_DIR set but directory not found: '' @ path_str d) s)"

text \<open>5) Brush training and export (lines 239 to 271).\<close>

definition check_brush_bin :: "world \<Rightarrow> args \<Rightarrow> stage" where
  "check_brush_bin w a s =
     (if \<not> which w (fs s) (brush_bin a) \<and> \<not> exists (fs s) (Path (brush_bin a)) then
        error_exit (''BRUSH_BIN not found: '' @ brush_bin a
                    @ ''. Ensure it is in PATH or provide full path.'') s
      else (Ok, s))"

definition brush_training :: "world \<Rightarrow> args \<Rightarrow> stage" where
  "brush_training w a s =
     (if run_brush a = 1 then
        seq ([info ''5/5 BRUSH: train + export'',
              check_brush_bin w a,
              do_mkdir True (brush_export_dir a)]
             @ (if device_given a then
                  [info (''Using GPU device via CUBECL_DEFAULT_DEVICE=''
                         @ the (cubecl_default_device a))]
                else [])
             @ [run_command w (cmd_brush a) True (Some (brush_env w a)),
                info (''Brush exports: '' @ path_str (brush_export_dir a))]) s
      else (Ok, s))"

text \<open>The whole of \<open>main\<close> after the command line is parsed.\<close>

definition stages :: "world \<Rightarrow> args \<Rightarrow> stage list" where
  "stages w a =
     [checks_and_setup a,
      auto_mask_detection a,
      feature_extraction w a,
      matching w a,
      sparse_reconstruction w a,
      undistort w a,
      dense_masks_step a,
      brush_training w a,
      info ''DONE'']"

definition start :: "node \<Rightarrow> st" where
  "start t = \<lparr>fs = t, trace = [], colmap_mask_args = []\<rparr>"

definition main :: "world \<Rightarrow> args \<Rightarrow> node \<Rightarrow> res \<times> st" where
  "main w a t = seq (stages w a) (start t)"

text \<open>
  Reading an argument list the way the source lays it out: two leading words (the binary
  and a subcommand or data path), then options in pairs of a flag and its value.
\<close>

fun options :: "string list \<Rightarrow> (string \<times> string) list" where
  "options (flag # v # rest) = (flag, v) # options rest"
| "options _ = []"

definition opt_value :: "string \<Rightarrow> string list \<Rightarrow> string option" where
  "opt_value flag argv = map_of (options (drop 2 argv)) flag"

subsection \<open>Reading a trace\<close>

text \<open>
  The child processes of a trace with their environment argument and how each ended; the
  exit status a failed process leaves the script with; the error line logged for it.
\<close>

fun procs :: "event list \<Rightarrow> (string list \<times> env option \<times> outcome) list" where
  "procs [] = []"
| "procs (Spawn cmd env out # es) = (cmd, env, out) # procs es"
| "procs (e # es) = procs es"

text \<open>The argument lists of the child processes of a trace, in the order they ran.\<close>

definition spawned :: "event list \<Rightarrow> string list list" where
  "spawned t = map fst (procs t)"

definition status :: "outcome \<Rightarrow> int" where
  "status out = (case out of Missing \<Rightarrow> 1 | Exited rc \<Rightarrow> rc)"

definition failure_msg :: "string list \<Rightarrow> outcome \<Rightarrow> string" where
  "failure_msg cmd out = (case out of
       Missing \<Rightarrow> ''Command not found: '' @ hd cmd
     | Exited rc \<Rightarrow> ''Command failed with exit code '' @ str_int rc @ '': '' @ join '' '' cmd)"

text \<open>
  How a section ends: \<open>quiet\<close> is an end without a failed child process (a check that
  exits with 1, or an exception). A section that runs no process is \<open>idle\<close>. \<open>failed\<close>
  says that the events end with a child process that did not return 0 and the error line
  logged for it, and that the run exits with the status of that child. A section that is
  to run the command \<open>ce\<close> ran it with exit code 0, or ended before running it, or failed
  on it.
\<close>

definition quiet :: "res \<Rightarrow> bool" where
  "quiet r = (case r of Ok \<Rightarrow> False | SysExit n \<Rightarrow> n = 1 | Raised _ \<Rightarrow> True)"

definition ok :: "string list \<times> env option \<Rightarrow> string list \<times> env option \<times> outcome" where
  "ok ce = (fst ce, snd ce, Exited 0)"

definition idle :: "event list \<Rightarrow> res \<Rightarrow> bool" where
  "idle evs r = (procs evs = [] \<and> (r = Ok \<or> quiet r))"

definition failed :: "string list \<times> env option \<Rightarrow> event list \<Rightarrow> res \<Rightarrow> bool" where
  "failed ce evs r =
     (\<exists>out pre. out \<noteq> Exited 0 \<and> procs pre = []
        \<and> evs = pre @ [Spawn (fst ce) (snd ce) out, Log ERROR (failure_msg (fst ce) out)]
        \<and> r = SysExit (status out))"

definition did :: "string list \<times> env option \<Rightarrow> event list \<Rightarrow> res \<Rightarrow> bool" where
  "did ce evs r =
     ((procs evs = [ok ce] \<and> (r = Ok \<or> quiet r))
      \<or> (procs evs = [] \<and> quiet r)
      \<or> failed ce evs r)"

definition idle_stage :: "stage \<Rightarrow> bool" where
  "idle_stage m =
     (\<forall>s r s'. m s = (r, s') \<longrightarrow>
        colmap_mask_args s' = colmap_mask_args s
        \<and> (\<exists>evs. trace s' = trace s @ evs \<and> idle evs r))"

subsection \<open>The plan of a run\<close>

text \<open>
  The commands of a run in the order of the source, each with the \<open>env\<close> argument it is
  started with; \<open>progress k\<close> is the number of them that the first \<open>k\<close> sections are to
  have run. \<open>reached w a t k s\<close>: the first \<open>k\<close> sections fell through and left the state
  \<open>s\<close>.
\<close>

definition plan :: "world \<Rightarrow> args \<Rightarrow> string list \<Rightarrow> (string list \<times> env option) list" where
  "plan w a mask_args =
     [(cmd_feature a mask_args, None), (cmd_match a, None),
      (cmd_mapper a, None), (cmd_undistort a, None)]
     @ (if run_brush a = 1 then [(cmd_brush a, Some (brush_env w a))] else [])"

definition progress :: "nat \<Rightarrow> nat" where
  "progress k = (if k < 3 then 0 else if k < 7 then k - 2 else if k = 7 then 4 else 5)"

text \<open>The sections (counted from 0) that run a command.\<close>

definition spawns :: "args \<Rightarrow> nat \<Rightarrow> bool" where
  "spawns a i = (i = 2 \<or> i = 3 \<or> i = 4 \<or> i = 5 \<or> (i = 7 \<and> run_brush a = 1))"

definition reached :: "world \<Rightarrow> args \<Rightarrow> node \<Rightarrow> nat \<Rightarrow> st \<Rightarrow> bool" where
  "reached w a t k s = (seq (take k (stages w a)) (start t) = (Ok, s))"

text \<open>
  The shape of the trace of a run against a plan: the run completed and every command of
  the plan ran with exit code 0; or it ended quietly after some of them; or the trace ends
  with the first command that did not return 0 and its error line, and the run exits with
  the status of that command.
\<close>

definition shape :: "(string list \<times> env option) list \<Rightarrow> event list \<Rightarrow> res \<Rightarrow> bool" where
  "shape pl tr r =
     ((r = Ok \<and> procs tr = map ok pl)
      \<or> (quiet r \<and> (\<exists>n. n \<le> length pl \<and> procs tr = map ok (take n pl)))
      \<or> (\<exists>n out pre. n < length pl \<and> out \<noteq> Exited 0
            \<and> procs pre = map ok (take n pl)
            \<and> tr = pre @ [Spawn (fst (pl ! n)) (snd (pl ! n)) out,
                           Log ERROR (failure_msg (fst (pl ! n)) out)]
            \<and> r = SysExit (status out)))"

subsection \<open>A sample run\<close>

text \<open>
  A project with two images, one mask for COLMAP whose extension is in capitals, and two
  masks for the undistorted images; Brush is switched off. In the sample world every
  command returns 0, the mapper leaves \<open>sparse/0\<close> behind and the undistorter
  \<open>dense/0/images\<close> and \<open>dense/0/sparse\<close>. \<open>demo_fs1\<close> to \<open>demo_fs4\<close> are the file
  systems after the setup, the mapper, the undistorter and the copying of the masks.
\<close>

definition demo_args :: args where
  "demo_args = \<lparr>project_dir = [''proj''], images_dir = [''imgs''], colmap_bin = ''colmap'',
     brush_bin = ''brush'', masks_dir = Some [''masks''], mask_ext = ''png'',
     dense_masks_dir = Some [''dmasks''],
     sfm_max_image_size = 1600, sift_max_num_features = 8192, undistort_max_image_size = 2000,
     camera_model = ''OPENCV'', single_camera = 1, min_num_matches = 15,
     refine_focal_length = 1, refine_extra_params = 1, refine_principal_point = 0,
     run_brush = 0, brush_total_steps = 30000, brush_max_splats = 1000000,
     brush_export_every = 5000, brush_eval_split_every = 8,
     brush_export_name = ''scene.ply'', cubecl_default_device = Some ''1''\<rparr>"

definition demo_fs :: node where
  "demo_fs = Dir [(''imgs'', Dir [(''a.jpg'', File ''A''), (''b.jpg'', File ''B'')]),
                  (''masks'', Dir [(''a.PNG'', File ''ma'')]),
                  (''dmasks'', Dir [(''a.png'', File ''da''), (''b.png'', File ''db''),
                                    (''notes.txt'', File ''n'')])]"

definition demo_spawn :: "string list \<Rightarrow> env \<Rightarrow> node \<Rightarrow> proc_result" where
  "demo_spawn cmd e t =
     (if take 1 (drop 1 cmd) = [''mapper''] then
        Returned 0 (put [''proj'', ''sparse'', ''0''] (Dir []) t)
      else if take 1 (drop 1 cmd) = [''image_undistorter''] then
        Returned 0 (put [''proj'', ''dense'', ''0'']
                      (Dir [(''images'', Dir []), (''sparse'', Dir [])]) t)
      else Returned 0 t)"

definition demo_world :: world where
  "demo_world = \<lparr>spawn = demo_spawn, which = (\<lambda>t name. name = ''brush''), environ = Map.empty\<rparr>"

definition demo_fs1 :: node where
  "demo_fs1 = put [''proj''] (Dir [(''sparse'', Dir []), (''dense'', Dir [])]) demo_fs"

definition demo_fs2 :: node where
  "demo_fs2 = put [''proj'', ''sparse'', ''0''] (Dir []) demo_fs1"

definition demo_fs3 :: node where
  "demo_fs3 = put [''proj'', ''dense'', ''0''] (Dir [(''images'', Dir []), (''sparse'', Dir [])]) demo_fs2"

definition demo_fs4 :: node where
  "demo_fs4 = put [''proj'', ''dense'', ''0'', ''masks'']
                (Dir [(''a.png'', File ''da''), (''b.png'', File ''db'')]) demo_fs3"

definition failing_world :: world where
  "failing_world = \<lparr>spawn = (\<lambda>cmd e t. if take 1 (drop 1 cmd) = [''feature_extractor'']
                                          then Returned 3 t else NotFound),
                     which = (\<lambda>t name. False), environ = Map.empty\<rparr>"

definition caps_args :: args where
  "caps_args = demo_args\<lparr>dense_masks_dir := Some [''masks'']\<rparr>"

definition calm :: "stage \<Rightarrow> bool" where
  "calm m = (\<forall>s r s' x y. m s = (r, s') \<and> Copy x y \<in> set (trace s') \<longrightarrow> Copy x y \<in> set (trace s))"

definition wiping_world :: world where
  "wiping_world = \<lparr>spawn = (\<lambda>cmd e t. if take 1 (drop 1 cmd) = [''feature_extractor'']
                                         then Returned 0 (Dir []) else Returned 0 t),
                    which = (\<lambda>t name. False), environ = Map.empty\<rparr>"


section \<open>Properties\<close>

subsection \<open>Sequencing and run_command\<close>

lemma procs_append [simp]: "procs (xs @ ys) = procs xs @ procs ys"
  by (induction xs rule: procs.induct) auto

lemma seq_append: "seq (xs @ ys) s = (case seq xs s of (Ok, s') \<Rightarrow> seq ys s' | (r, s') \<Rightarrow> (r, s'))"
  by (induction xs arbitrary: s) (auto split: prod.splits res.splits)

lemma seq_rule:
  assumes run: "seq ms s0 = (r, s)"
    and init: "P 0 s0"
    and step: "\<And>k s s'. k < length ms \<Longrightarrow> P k s \<Longrightarrow> (ms ! k) s = (Ok, s') \<Longrightarrow> P (Suc k) s'"
    and stop: "\<And>k s r s'. k < length ms \<Longrightarrow> P k s \<Longrightarrow> (ms ! k) s = (r, s') \<Longrightarrow> r \<noteq> Ok \<Longrightarrow> Q r s'"
    and fin: "\<And>s. P (length ms) s \<Longrightarrow> Q Ok s"
  shows "Q r s"
  using run init step stop fin
proof (induction ms arbitrary: s0 P)
  case Nil
  then show ?case by simp
next
  case (Cons m ms)
  obtain r1 s1 where m: "m s0 = (r1, s1)" by (cases "m s0")
  show ?case
  proof (cases "r1 = Ok")
    case True
    with m Cons.prems(1) have run': "seq ms s1 = (r, s)" by simp
    have p1: "P (Suc 0) s1" using Cons.prems(3)[of 0 s0 s1] Cons.prems(2) m True by simp
    show ?thesis
    proof (rule Cons.IH[where P = "\<lambda>k. P (Suc k)", OF run' p1])
      fix k s s' assume "k < length ms" "P (Suc k) s" "(ms ! k) s = (Ok, s')"
      then show "P (Suc (Suc k)) s'" using Cons.prems(3)[of "Suc k" s s'] by simp
    next
      fix k s r s' assume "k < length ms" "P (Suc k) s" "(ms ! k) s = (r, s')" "r \<noteq> Ok"
      then show "Q r s'" using Cons.prems(4)[of "Suc k" s r s'] by simp
    next
      fix s assume "P (Suc (length ms)) s"
      then show "Q Ok s" using Cons.prems(5)[of s] by simp
    qed
  next
    case False
    with m Cons.prems(1) have "r = r1" "s = s1" by (auto split: res.splits)
    then show ?thesis using Cons.prems(4)[of 0 s0 r1 s1] Cons.prems(2) m False by simp
  qed
qed

lemma run_command_cases:
  assumes "run_command w cmd True env s = (r, s')" "cmd \<noteq> []"
  shows "colmap_mask_args s' = colmap_mask_args s
         \<and> (\<exists>evs. trace s' = trace s @ evs
              \<and> ((r = Ok \<and> procs evs = [ok (cmd, env)]) \<or> failed (cmd, env) evs r))"
proof -
  let ?run = "Log INFO (''Running: '' @ join '' '' cmd)"
  obtain exe rest where c: "cmd = exe # rest" using assms(2) by (cases cmd) auto
  show ?thesis
  proof (cases "spawn w cmd (case env of None \<Rightarrow> environ w | Some e \<Rightarrow> e) (fs s)")
    case NotFound
    with assms(1) c have r: "r = SysExit 1" and s': "s' = emit (Log ERROR (failure_msg cmd Missing))
        (emit (Spawn cmd env Missing) (emit ?run s))"
      by (auto simp: run_command_def Let_def emit_def error_exit_def failure_msg_def)
    have "failed (cmd, env) [?run, Spawn cmd env Missing, Log ERROR (failure_msg cmd Missing)] r"
      unfolding failed_def
      by (rule exI[of _ Missing], rule exI[of _ "[?run]"]) (simp add: r status_def)
    with s' show ?thesis by (auto simp: emit_def)
  next
    case (Returned rc t)
    show ?thesis
    proof (cases "rc = 0")
      case True
      with Returned assms(1) c have "r = Ok"
        "s' = (emit (Spawn cmd env (Exited 0)) (emit ?run s))\<lparr>fs := t\<rparr>"
        by (auto simp: run_command_def Let_def emit_def)
      then show ?thesis by (auto simp: emit_def ok_def)
    next
      case False
      with Returned assms(1) c have r: "r = SysExit rc" and s': "s' = emit (Log ERROR (failure_msg cmd (Exited rc)))
          ((emit (Spawn cmd env (Exited rc)) (emit ?run s))\<lparr>fs := t\<rparr>)"
        by (auto simp: run_command_def Let_def emit_def failure_msg_def)
      have "failed (cmd, env) [?run, Spawn cmd env (Exited rc), Log ERROR (failure_msg cmd (Exited rc))] r"
        unfolding failed_def
        by (rule exI[of _ "Exited rc"], rule exI[of _ "[?run]"]) (simp add: r status_def False)
      with s' show ?thesis by (auto simp: emit_def)
    qed
  qed
qed

subsection \<open>Sections that run no process\<close>

lemma idle_stageI:
  assumes "\<And>s r s'. m s = (r, s') \<Longrightarrow> colmap_mask_args s' = colmap_mask_args s \<and> (\<exists>evs. trace s' = trace s @ evs \<and> idle evs r)"
  shows "idle_stage m"
  using assms unfolding idle_stage_def by blast

lemma idle_stageD:
  assumes "idle_stage m" "m s = (r, s')"
  obtains evs where "colmap_mask_args s' = colmap_mask_args s" "trace s' = trace s @ evs" "idle evs r"
  using assms unfolding idle_stage_def by blast

lemma idle_info: "idle_stage (info msg)"
  by (rule idle_stageI) (auto simp: info_def emit_def idle_def)

lemma idle_warning: "idle_stage (warning msg)"
  by (rule idle_stageI) (auto simp: warning_def emit_def idle_def)

lemma idle_error_exit: "idle_stage (error_exit msg)"
  by (rule idle_stageI) (auto simp: error_exit_def emit_def idle_def quiet_def)

lemma idle_do_mkdir: "idle_stage (do_mkdir parents p)"
  by (rule idle_stageI) (auto simp: do_mkdir_def emit_def idle_def quiet_def split: sum.splits if_splits)

lemma idle_skip: "idle_stage (\<lambda>s. (Ok, s))"
  by (rule idle_stageI) (auto simp: idle_def)

lemma idle_seq: "(\<And>m. m \<in> set ms \<Longrightarrow> idle_stage m) \<Longrightarrow> idle_stage (seq ms)"
proof (induction ms)
  case Nil
  show ?case by (rule idle_stageI) (auto simp: idle_def)
next
  case (Cons m ms)
  have im: "idle_stage m" and ims: "idle_stage (seq ms)" using Cons by auto
  show ?case
  proof (rule idle_stageI)
    fix s r s' assume run: "seq (m # ms) s = (r, s')"
    obtain r1 s1 where m: "m s = (r1, s1)" by (cases "m s")
    from idle_stageD[OF im m] obtain e1 where
      1: "colmap_mask_args s1 = colmap_mask_args s" "trace s1 = trace s @ e1" "idle e1 r1" by blast
    show "colmap_mask_args s' = colmap_mask_args s \<and> (\<exists>evs. trace s' = trace s @ evs \<and> idle evs r)"
    proof (cases "r1 = Ok")
      case True
      with run m have "seq ms s1 = (r, s')" by simp
      from idle_stageD[OF ims this] obtain e2 where
        2: "colmap_mask_args s' = colmap_mask_args s1" "trace s' = trace s1 @ e2" "idle e2 r" by blast
      from 1 2 have "trace s' = trace s @ (e1 @ e2)" "idle (e1 @ e2) r" by (auto simp: idle_def)
      with 1 2 show ?thesis by metis
    next
      case False
      with run m have "r = r1" "s' = s1" by (auto split: res.splits)
      with 1 show ?thesis by auto
    qed
  qed
qed

lemma idle_if: "idle_stage f \<Longrightarrow> idle_stage g \<Longrightarrow> idle_stage (\<lambda>s. if c s then f s else g s)"
  unfolding idle_stage_def by auto

lemma idle_check_mapping_result: "idle_stage (check_mapping_result a)"
  unfolding check_mapping_result_def by (intro idle_if idle_error_exit idle_skip)

lemma idle_check_undistort_result: "idle_stage (check_undistort_result a)"
  unfolding check_undistort_result_def by (intro idle_if idle_error_exit idle_skip)

lemma idle_check_brush_bin: "idle_stage (check_brush_bin w a)"
  unfolding check_brush_bin_def by (intro idle_if idle_error_exit idle_skip)

lemma idle_copy_masks: "idle_stage (copy_masks target ms)"
proof (rule idle_stageI)
  fix s r s' assume "copy_masks target ms s = (r, s')"
  then show "colmap_mask_args s' = colmap_mask_args s \<and> (\<exists>evs. trace s' = trace s @ evs \<and> idle evs r)"
  proof (induction ms arbitrary: s)
    case Nil
    then show ?case by (auto simp: idle_def)
  next
    case (Cons m ms)
    show ?case
    proof (cases "copy2 (fs s) m (joinpath target (path_name m))")
      case (Inl e)
      with Cons.prems show ?thesis by (auto simp: idle_def quiet_def)
    next
      case (Inr t)
      let ?s1 = "(emit (Copy m (joinpath target (path_name m))) s)\<lparr>fs := t\<rparr>"
      from Inr Cons.prems have "copy_masks target ms ?s1 = (r, s')" by simp
      from Cons.IH[OF this] obtain evs where
        "colmap_mask_args s' = colmap_mask_args ?s1" "trace s' = trace ?s1 @ evs" "idle evs r" by blast
      then have "colmap_mask_args s' = colmap_mask_args s"
        "trace s' = trace s @ (Copy m (joinpath target (path_name m)) # evs)"
        "idle (Copy m (joinpath target (path_name m)) # evs) r"
        by (auto simp: emit_def idle_def)
      then show ?thesis by blast
    qed
  qed
qed

lemma idle_checks_and_setup: "idle_stage (checks_and_setup a)"
  unfolding checks_and_setup_def
  by (intro idle_if idle_error_exit idle_seq) (auto intro: idle_do_mkdir idle_info)

lemma idle_dense_masks_step: "idle_stage (dense_masks_step a)"
proof (rule idle_stageI)
  fix s r s' assume run: "dense_masks_step a s = (r, s')"
  have seq4: "\<And>d. idle_stage (seq [info (''Copying undistorted masks into dataset for Brush -> ''
                          @ path_str (brush_masks_path a)),
                    do_mkdir False (brush_masks_path a),
                    copy_masks (brush_masks_path a) (glob (fs s) d (''*.'' @ mask_ext a)),
                    info (''Brush masks ready: '' @ str_nat (length (glob (fs s) d (''*.'' @ mask_ext a)))
                          @ '' file(s) copied.'')])"
    by (rule idle_seq) (auto intro: idle_do_mkdir idle_info idle_copy_masks)
  show "colmap_mask_args s' = colmap_mask_args s \<and> (\<exists>evs. trace s' = trace s @ evs \<and> idle evs r)"
  proof (cases "dense_masks_dir a")
    case None
    with run show ?thesis using idle_info unfolding dense_masks_step_def idle_stage_def by auto
  next
    case (Some d)
    show ?thesis
    proof (cases "exists (fs s) d")
      case False
      with Some run show ?thesis using idle_warning unfolding dense_masks_step_def idle_stage_def by auto
    next
      case True
      show ?thesis
      proof (cases "glob (fs s) d (''*.'' @ mask_ext a) = []")
        case True
        with Some \<open>exists (fs s) d\<close> run show ?thesis
          using idle_warning unfolding dense_masks_step_def idle_stage_def by (auto simp: Let_def)
      next
        case False
        with Some True run show ?thesis
          using seq4[of d] unfolding dense_masks_step_def idle_stage_def by (auto simp: Let_def)
      qed
    qed
  qed
qed

subsection \<open>Sections that run one command\<close>

lemma did_seq:
  assumes pre: "idle_stage (seq pre)" and post: "idle_stage (seq post)"
    and ne: "\<And>x. c x \<noteq> []"
    and run: "seq (pre @ (\<lambda>s. run_command w (c (colmap_mask_args s)) True env s) # post) s = (r, s')"
  shows "colmap_mask_args s' = colmap_mask_args s
         \<and> (\<exists>evs. trace s' = trace s @ evs \<and> did (c (colmap_mask_args s), env) evs r)"
proof -
  let ?ce = "(c (colmap_mask_args s), env)"
  obtain r1 s1 where p: "seq pre s = (r1, s1)" by (cases "seq pre s")
  from idle_stageD[OF pre p] obtain e1 where
    1: "colmap_mask_args s1 = colmap_mask_args s" "trace s1 = trace s @ e1" "idle e1 r1" by blast
  show ?thesis
  proof (cases "r1 = Ok")
    case False
    with run p have "r = r1" "s' = s1" by (auto simp: seq_append split: res.splits)
    moreover from False 1 have "did ?ce e1 r1" by (auto simp: did_def idle_def)
    ultimately show ?thesis using 1 by auto
  next
    case True
    obtain r2 s2 where c: "run_command w (c (colmap_mask_args s1)) True env s1 = (r2, s2)"
      by (cases "run_command w (c (colmap_mask_args s1)) True env s1")
    from run_command_cases[OF c ne] obtain e2 where
      2: "colmap_mask_args s2 = colmap_mask_args s1" "trace s2 = trace s1 @ e2"
         "(r2 = Ok \<and> procs e2 = [ok (c (colmap_mask_args s1), env)]) \<or> failed (c (colmap_mask_args s1), env) e2 r2"
      by blast
    from 1 have pe1: "procs e1 = []" by (simp add: idle_def)
    show ?thesis
    proof (cases "r2 = Ok")
      case False
      with run p c True have fin: "r = r2" "s' = s2" by (auto simp: seq_append split: res.splits)
      from False 2 have "failed ?ce e2 r2" using 1 by auto
      then obtain out pre' where f: "out \<noteq> Exited 0" "procs pre' = []"
        "e2 = pre' @ [Spawn (fst ?ce) (snd ?ce) out, Log ERROR (failure_msg (fst ?ce) out)]"
        "r2 = SysExit (status out)" unfolding failed_def by blast
      have "failed ?ce (e1 @ e2) r2" unfolding failed_def
        by (rule exI[of _ out], rule exI[of _ "e1 @ pre'"]) (use f pe1 in simp)
      then have "did ?ce (e1 @ e2) r" using fin by (simp add: did_def)
      moreover have "trace s' = trace s @ (e1 @ e2)" using fin 1 2 by simp
      ultimately show ?thesis using fin 1 2 by metis
    next
      case r2: True
      with run p c True have q: "seq post s2 = (r, s')" by (simp add: seq_append)
      from idle_stageD[OF post q] obtain e3 where
        3: "colmap_mask_args s' = colmap_mask_args s2" "trace s' = trace s2 @ e3" "idle e3 r" by blast
      from r2 2 have "procs e2 = [ok ?ce]" using 1 by (auto simp: failed_def)
      with pe1 3 have "did ?ce (e1 @ e2 @ e3) r" by (auto simp: did_def idle_def)
      moreover have "trace s' = trace s @ (e1 @ e2 @ e3)" using 1 2 3 by simp
      ultimately show ?thesis using 1 2 3 by metis
    qed
  qed
qed

lemma did_feature_extraction:
  assumes "feature_extraction w a s = (r, s')"
  shows "colmap_mask_args s' = colmap_mask_args s
         \<and> (\<exists>evs. trace s' = trace s @ evs
              \<and> did (cmd_feature a (colmap_mask_args s), None) evs r)"
proof (rule did_seq[where c = "cmd_feature a" and post = "[]"
      and pre = "[info ''1/5 COLMAP: feature extraction'']"])
  show "idle_stage (seq [info ''1/5 COLMAP: feature extraction''])"
    by (rule idle_seq) (auto intro: idle_info)
  show "idle_stage (seq [])" by (rule idle_seq) simp
  show "\<And>x. cmd_feature a x \<noteq> []" by (simp add: cmd_feature_def)
  show "seq ([info ''1/5 COLMAP: feature extraction''] @
      [\<lambda>s. run_command w (cmd_feature a (colmap_mask_args s)) True None s]) s = (r, s')"
    using assms by (simp add: feature_extraction_def)
qed

lemma did_matching:
  assumes "matching w a s = (r, s')"
  shows "colmap_mask_args s' = colmap_mask_args s
         \<and> (\<exists>evs. trace s' = trace s @ evs \<and> did (cmd_match a, None) evs r)"
proof (rule did_seq[where c = "\<lambda>_. cmd_match a" and post = "[]"
      and pre = "[info ''2/5 COLMAP: exhaustive matching'']"])
  show "idle_stage (seq [info ''2/5 COLMAP: exhaustive matching''])"
    by (rule idle_seq) (auto intro: idle_info)
  show "idle_stage (seq [])" by (rule idle_seq) simp
  show "\<And>x. cmd_match a \<noteq> []" by (simp add: cmd_match_def)
  show "seq ([info ''2/5 COLMAP: exhaustive matching''] @
      [\<lambda>s. run_command w (cmd_match a) True None s]) s = (r, s')"
    using assms by (simp add: matching_def)
qed

lemma did_sparse_reconstruction:
  assumes "sparse_reconstruction w a s = (r, s')"
  shows "colmap_mask_args s' = colmap_mask_args s
         \<and> (\<exists>evs. trace s' = trace s @ evs \<and> did (cmd_mapper a, None) evs r)"
proof (rule did_seq[where c = "\<lambda>_. cmd_mapper a" and post = "[check_mapping_result a]"
      and pre = "[info ''3/5 COLMAP: mapper (sparse SfM)'']"])
  show "idle_stage (seq [info ''3/5 COLMAP: mapper (sparse SfM)''])"
    by (rule idle_seq) (auto intro: idle_info)
  show "idle_stage (seq [check_mapping_result a])"
    by (rule idle_seq) (auto intro: idle_check_mapping_result)
  show "\<And>x. cmd_mapper a \<noteq> []" by (simp add: cmd_mapper_def)
  show "seq ([info ''3/5 COLMAP: mapper (sparse SfM)''] @
      (\<lambda>s. run_command w (cmd_mapper a) True None s) # [check_mapping_result a]) s = (r, s')"
    using assms by (simp add: sparse_reconstruction_def)
qed

lemma did_undistort:
  assumes "undistort w a s = (r, s')"
  shows "colmap_mask_args s' = colmap_mask_args s
         \<and> (\<exists>evs. trace s' = trace s @ evs \<and> did (cmd_undistort a, None) evs r)"
proof (rule did_seq[where c = "\<lambda>_. cmd_undistort a"
      and post = "[check_undistort_result a, info (''Dataset for Brush: '' @ path_str (brush_data_path a))]"
      and pre = "[info ''4/5 COLMAP: image_undistorter (creates dense/0/images + dense/0/sparse)'']"])
  show "idle_stage (seq [info ''4/5 COLMAP: image_undistorter (creates dense/0/images + dense/0/sparse)''])"
    by (rule idle_seq) (auto intro: idle_info)
  show "idle_stage (seq [check_undistort_result a, info (''Dataset for Brush: '' @ path_str (brush_data_path a))])"
    by (rule idle_seq) (auto intro: idle_check_undistort_result idle_info)
  show "\<And>x. cmd_undistort a \<noteq> []" by (simp add: cmd_undistort_def)
  show "seq ([info ''4/5 COLMAP: image_undistorter (creates dense/0/images + dense/0/sparse)''] @
      (\<lambda>s. run_command w (cmd_undistort a) True None s)
      # [check_undistort_result a, info (''Dataset for Brush: '' @ path_str (brush_data_path a))]) s = (r, s')"
    using assms by (simp add: undistort_def)
qed

lemma did_brush_training:
  assumes "brush_training w a s = (r, s')" "run_brush a = 1"
  shows "colmap_mask_args s' = colmap_mask_args s
         \<and> (\<exists>evs. trace s' = trace s @ evs \<and> did (cmd_brush a, Some (brush_env w a)) evs r)"
proof (rule did_seq[where c = "\<lambda>_. cmd_brush a"
      and post = "[info (''Brush exports: '' @ path_str (brush_export_dir a))]"
      and pre = "[info ''5/5 BRUSH: train + export'', check_brush_bin w a,
                  do_mkdir True (brush_export_dir a)]
                 @ (if device_given a then
                      [info (''Using GPU device via CUBECL_DEFAULT_DEVICE=''
                             @ the (cubecl_default_device a))]
                    else [])"])
  show "idle_stage (seq ([info ''5/5 BRUSH: train + export'', check_brush_bin w a,
                  do_mkdir True (brush_export_dir a)]
                 @ (if device_given a then
                      [info (''Using GPU device via CUBECL_DEFAULT_DEVICE=''
                             @ the (cubecl_default_device a))]
                    else [])))"
    by (rule idle_seq) (auto intro: idle_info idle_check_brush_bin idle_do_mkdir split: if_splits)
  show "idle_stage (seq [info (''Brush exports: '' @ path_str (brush_export_dir a))])"
    by (rule idle_seq) (auto intro: idle_info)
  show "\<And>x. cmd_brush a \<noteq> []" by (simp add: cmd_brush_def)
  show "seq (([info ''5/5 BRUSH: train + export'', check_brush_bin w a,
                  do_mkdir True (brush_export_dir a)]
                 @ (if device_given a then
                      [info (''Using GPU device via CUBECL_DEFAULT_DEVICE=''
                             @ the (cubecl_default_device a))]
                    else [])) @
      (\<lambda>s. run_command w (cmd_brush a) True (Some (brush_env w a)) s)
      # [info (''Brush exports: '' @ path_str (brush_export_dir a))]) s = (r, s')"
    using assms by (simp add: brush_training_def)
qed

lemma auto_mask_detection_idle:
  assumes "auto_mask_detection a s = (r, s')"
  shows "\<exists>evs. trace s' = trace s @ evs \<and> idle evs r"
  using assms
  by (auto simp: auto_mask_detection_def Let_def info_def warning_def emit_def idle_def quiet_def
      split: option.splits sum.splits if_splits)

subsection \<open>The shape of every run\<close>

lemma plan_length: "length (plan w a m) = (if run_brush a = 1 then 5 else 4)"
  by (simp add: plan_def)

lemma plan_nth:
  "plan w a m ! 0 = (cmd_feature a m, None)"
  "plan w a m ! Suc 0 = (cmd_match a, None)"
  "plan w a m ! 2 = (cmd_mapper a, None)"
  "plan w a m ! 3 = (cmd_undistort a, None)"
  "run_brush a = 1 \<Longrightarrow> plan w a m ! 4 = (cmd_brush a, Some (brush_env w a))"
  by (simp_all add: plan_def numeral_2_eq_2 numeral_3_eq_3 eval_nat_numeral)

lemma below_nine:
  assumes "i < (9::nat)"
  shows "i = 0 \<or> i = 1 \<or> i = 2 \<or> i = 3 \<or> i = 4 \<or> i = 5 \<or> i = 6 \<or> i = 7 \<or> i = 8"
  using assms by arith

lemma stage_effect:
  assumes "i < 9" "(stages w a ! i) s = (r, s')"
  shows "(i = 1 \<or> colmap_mask_args s' = colmap_mask_args s)
         \<and> (\<exists>evs. trace s' = trace s @ evs
              \<and> ((spawns a i \<and> did (plan w a (colmap_mask_args s') ! progress i) evs r)
                  \<or> (\<not> spawns a i \<and> idle evs r)))"
proof -
  from below_nine[OF assms(1)]
  consider (prepare) "i = 0" | (detection) "i = 1" | (feature) "i = 2" | (matcher) "i = 3"
    | (mapper) "i = 4" | (undistorter) "i = 5" | (dense) "i = 6" | (brush) "i = 7"
    | (finish) "i = 8"
    by blast
  then show ?thesis
  proof cases
    case prepare
    with assms(2) have "checks_and_setup a s = (r, s')" by (simp add: stages_def)
    from idle_stageD[OF idle_checks_and_setup this] prepare show ?thesis
      by (auto simp: spawns_def)
  next
    case detection
    with assms(2) have "auto_mask_detection a s = (r, s')" by (simp add: stages_def)
    from auto_mask_detection_idle[OF this] detection show ?thesis by (auto simp: spawns_def)
  next
    case feature
    with assms(2) have "feature_extraction w a s = (r, s')" by (simp add: stages_def)
    from did_feature_extraction[OF this] feature show ?thesis
      by (auto simp: spawns_def progress_def plan_nth)
  next
    case matcher
    with assms(2) have "matching w a s = (r, s')" by (simp add: stages_def)
    from did_matching[OF this] matcher show ?thesis
      by (auto simp: spawns_def progress_def plan_nth)
  next
    case mapper
    with assms(2) have "sparse_reconstruction w a s = (r, s')" by (simp add: stages_def)
    from did_sparse_reconstruction[OF this] mapper show ?thesis
      by (auto simp: spawns_def progress_def plan_nth)
  next
    case undistorter
    with assms(2) have "undistort w a s = (r, s')" by (simp add: stages_def)
    from did_undistort[OF this] undistorter show ?thesis
      by (auto simp: spawns_def progress_def plan_nth)
  next
    case dense
    with assms(2) have "dense_masks_step a s = (r, s')" by (simp add: stages_def)
    from idle_stageD[OF idle_dense_masks_step this] dense show ?thesis
      by (auto simp: spawns_def)
  next
    case brush
    with assms(2) have run: "brush_training w a s = (r, s')" by (simp add: stages_def)
    show ?thesis
    proof (cases "run_brush a = 1")
      case True
      from did_brush_training[OF run True] brush True show ?thesis
        by (auto simp: spawns_def progress_def plan_nth)
    next
      case False
      with run have "r = Ok" "s' = s" by (auto simp: brush_training_def)
      with brush False show ?thesis by (auto simp: spawns_def idle_def)
    qed
  next
    case finish
    with assms(2) have "info ''DONE'' s = (r, s')" by (simp add: stages_def)
    from idle_stageD[OF idle_info this] finish show ?thesis by (auto simp: spawns_def)
  qed
qed

lemma progress_spawns:
  assumes "i < 9" "spawns a i"
  shows "progress i < length (plan w a m)" "progress (Suc i) = Suc (progress i)"
  using assms by (auto simp: spawns_def progress_def plan_length)

lemma progress_idle:
  assumes "i < 9" "\<not> spawns a i"
  shows "take (progress (Suc i)) (plan w a m) = take (progress i) (plan w a m)"
proof -
  from below_nine[OF assms(1)] assms(2)
  consider "i = 0 \<or> i = 1 \<or> i = 6 \<or> i = 8" | "i = 7" "run_brush a \<noteq> 1"
    by (auto simp: spawns_def)
  then show ?thesis
  proof cases
    case 1
    then show ?thesis by (auto simp: progress_def)
  next
    case 2
    then show ?thesis by (simp add: progress_def plan_length)
  qed
qed

lemma advance:
  assumes i: "i < 9"
    and P: "procs (trace s) = map ok (take (progress i) (plan w a (colmap_mask_args s)))"
    and run: "(stages w a ! i) s = (r, s')"
  shows "(r = Ok \<and> procs (trace s') = map ok (take (progress (Suc i)) (plan w a (colmap_mask_args s'))))
         \<or> (r \<noteq> Ok \<and> shape (plan w a (colmap_mask_args s')) (trace s') r)"
proof -
  let ?pl = "plan w a (colmap_mask_args s')"
  let ?n = "progress i"
  from stage_effect[OF i run] obtain evs where
    cma: "i = 1 \<or> colmap_mask_args s' = colmap_mask_args s"
    and tr: "trace s' = trace s @ evs"
    and eff: "(spawns a i \<and> did (?pl ! ?n) evs r) \<or> (\<not> spawns a i \<and> idle evs r)"
    by blast
  have P': "procs (trace s) = map ok (take ?n ?pl)"
    using cma P by (auto simp: progress_def)
  have quiet_shape: "shape ?pl (trace s') r"
    if "quiet r" "procs (trace s') = map ok (take k ?pl)" for k
  proof -
    have "min k (length ?pl) \<le> length ?pl"
      "procs (trace s') = map ok (take (min k (length ?pl)) ?pl)"
      using that(2) by (simp_all add: min_def)
    with that(1) show ?thesis unfolding shape_def by blast
  qed
  from eff show ?thesis
  proof
    assume "\<not> spawns a i \<and> idle evs r"
    then have ns: "\<not> spawns a i" and pe: "procs evs = []" and r: "r = Ok \<or> quiet r"
      by (auto simp: idle_def)
    have same: "procs (trace s') = map ok (take ?n ?pl)" using tr pe P' by simp
    show ?thesis
    proof (cases "r = Ok")
      case True
      with same progress_idle[OF i ns] show ?thesis by simp
    next
      case False
      with r quiet_shape[OF _ same] show ?thesis by simp
    qed
  next
    assume "spawns a i \<and> did (?pl ! ?n) evs r"
    then have sp: "spawns a i" and d: "did (?pl ! ?n) evs r" by auto
    note lt = progress_spawns(1)[OF i sp, of w "colmap_mask_args s'"]
    note suc = progress_spawns(2)[OF i sp]
    from d consider
        (ran) "procs evs = [ok (?pl ! ?n)]" "r = Ok \<or> quiet r"
      | (before) "procs evs = []" "quiet r"
      | (fail) "failed (?pl ! ?n) evs r"
      unfolding did_def by blast
    then show ?thesis
    proof cases
      case ran
      have next': "procs (trace s') = map ok (take (Suc ?n) ?pl)"
        using tr ran(1) P' lt by (simp add: take_Suc_conv_app_nth)
      show ?thesis
      proof (cases "r = Ok")
        case True
        with next' suc show ?thesis by simp
      next
        case False
        with ran(2) quiet_shape[OF _ next'] show ?thesis by simp
      qed
    next
      case before
      have "procs (trace s') = map ok (take ?n ?pl)" using tr before(1) P' by simp
      from quiet_shape[OF before(2) this] before(2) show ?thesis by (auto simp: quiet_def)
    next
      case fail
      then obtain out pre where f: "out \<noteq> Exited 0" "procs pre = []"
        "evs = pre @ [Spawn (fst (?pl ! ?n)) (snd (?pl ! ?n)) out,
                      Log ERROR (failure_msg (fst (?pl ! ?n)) out)]"
        "r = SysExit (status out)" unfolding failed_def by blast
      have "procs (trace s @ pre) = map ok (take ?n ?pl)" using f(2) P' by simp
      moreover have "trace s' = (trace s @ pre) @ [Spawn (fst (?pl ! ?n)) (snd (?pl ! ?n)) out,
                      Log ERROR (failure_msg (fst (?pl ! ?n)) out)]"
        using tr f(3) by simp
      ultimately have "shape ?pl (trace s') r" unfolding shape_def using lt f(1,4) by blast
      with f(4) show ?thesis by simp
    qed
  qed
qed

lemma prefix_run:
  assumes k: "k \<le> 9" and run: "seq (take k (stages w a)) (start t) = (r, s)"
  shows "(r = Ok \<and> procs (trace s) = map ok (take (progress k) (plan w a (colmap_mask_args s))))
         \<or> (r \<noteq> Ok \<and> shape (plan w a (colmap_mask_args s)) (trace s) r)"
proof (rule seq_rule[OF run, where
      P = "\<lambda>i s. procs (trace s) = map ok (take (progress i) (plan w a (colmap_mask_args s)))"])
  have len: "length (take k (stages w a)) = k" using k by (simp add: stages_def)
  show "procs (trace (start t)) = map ok (take (progress 0) (plan w a (colmap_mask_args (start t))))"
    by (simp add: start_def progress_def)
  show "procs (trace s') = map ok (take (progress (Suc i)) (plan w a (colmap_mask_args s')))"
    if "i < length (take k (stages w a))"
      "procs (trace s) = map ok (take (progress i) (plan w a (colmap_mask_args s)))"
      "(take k (stages w a) ! i) s = (Ok, s')" for i s s'
  proof -
    from that(1) len k have i: "i < 9" "i < k" by auto
    from that(3) i have "(stages w a ! i) s = (Ok, s')" by simp
    from advance[OF i(1) that(2) this] show ?thesis by simp
  qed
  show "(r = Ok \<and> procs (trace s') = map ok (take (progress k) (plan w a (colmap_mask_args s'))))
         \<or> (r \<noteq> Ok \<and> shape (plan w a (colmap_mask_args s')) (trace s') r)"
    if "i < length (take k (stages w a))"
      "procs (trace s) = map ok (take (progress i) (plan w a (colmap_mask_args s)))"
      "(take k (stages w a) ! i) s = (r, s')" "r \<noteq> Ok" for i s r s'
  proof -
    from that(1) len k have i: "i < 9" "i < k" by auto
    from that(3) i have "(stages w a ! i) s = (r, s')" by simp
    from advance[OF i(1) that(2) this] that(4) show ?thesis by simp
  qed
  show "(Ok = Ok \<and> procs (trace s) = map ok (take (progress k) (plan w a (colmap_mask_args s))))
         \<or> (Ok \<noteq> Ok \<and> shape (plan w a (colmap_mask_args s)) (trace s) Ok)"
    if "procs (trace s) = map ok (take (progress (length (take k (stages w a)))) (plan w a (colmap_mask_args s)))" for s
    using that len by simp
qed

lemma reached_procs:
  assumes "k \<le> 9" "reached w a t k s"
  shows "procs (trace s) = map ok (take (progress k) (plan w a (colmap_mask_args s)))"
  using prefix_run[OF assms(1), of w a t Ok s] assms(2) by (simp add: reached_def)

lemma main_shape:
  assumes "main w a t = (r, s)"
  shows "shape (plan w a (colmap_mask_args s)) (trace s) r"
proof -
  have "seq (take 9 (stages w a)) (start t) = (r, s)"
    using assms by (simp add: main_def stages_def)
  from prefix_run[OF _ this] show ?thesis
    by (auto simp: shape_def progress_def plan_length)
qed

subsection \<open>The sample run, section by section\<close>

lemmas fs_defs = exists_def is_file_def is_dir_def iterdir_def glob_def mkdir_parents_def
  mkdir_exist_ok_def copy2_def joinpath_def path_name_def
lemmas path_defs = sparse_dir_def dense_dir_def db_path_def brush_export_dir_def
  brush_data_path_def brush_images_path_def brush_sparse_path_def brush_masks_path_def joinpath_def
lemmas demo_defs = demo_args_def demo_fs_def demo_world_def demo_spawn_def demo_fs1_def demo_fs2_def demo_fs3_def

lemma seq_Cons_ok: "fst (m s) = Ok \<Longrightarrow> seq (m # ms) s = seq ms (snd (m s))"
  by (cases "m s") auto

lemma demo_setup:
  assumes "fs s = demo_fs"
  shows "fst (checks_and_setup demo_args s) = Ok"
    "fs (snd (checks_and_setup demo_args s)) = demo_fs1"
    "colmap_mask_args (snd (checks_and_setup demo_args s)) = colmap_mask_args s"
  using assms
  by (simp_all add: checks_and_setup_def do_mkdir_def info_def emit_def fs_defs path_defs demo_defs)

lemma demo_detection:
  assumes "fs s = demo_fs1"
  shows "fst (auto_mask_detection demo_args s) = Ok"
    "fs (snd (auto_mask_detection demo_args s)) = demo_fs1"
    "colmap_mask_args (snd (auto_mask_detection demo_args s)) = [''--ImageReader.mask_path'', ''masks'']"
  using assms
  by (simp_all add: auto_mask_detection_def count_images_def extensions_def is_mask_def
      suffix_def suffix_of_name_def lower_def lower_char_def path_str_def
      info_def warning_def emit_def fs_defs path_defs demo_defs Let_def)

lemma demo_feature:
  assumes "fs s = demo_fs1"
  shows "fst (feature_extraction demo_world demo_args s) = Ok"
    "fs (snd (feature_extraction demo_world demo_args s)) = demo_fs1"
    "colmap_mask_args (snd (feature_extraction demo_world demo_args s)) = colmap_mask_args s"
  using assms
  by (simp_all add: feature_extraction_def run_command_def cmd_feature_def
      info_def emit_def demo_world_def demo_spawn_def Let_def)

lemma demo_matching:
  assumes "fs s = demo_fs1"
  shows "fst (matching demo_world demo_args s) = Ok"
    "fs (snd (matching demo_world demo_args s)) = demo_fs1"
    "colmap_mask_args (snd (matching demo_world demo_args s)) = colmap_mask_args s"
  using assms
  by (simp_all add: matching_def run_command_def cmd_match_def
      info_def emit_def demo_world_def demo_spawn_def Let_def)

lemma demo_mapper:
  assumes "fs s = demo_fs1"
  shows "fst (sparse_reconstruction demo_world demo_args s) = Ok"
    "fs (snd (sparse_reconstruction demo_world demo_args s)) = demo_fs2"
    "colmap_mask_args (snd (sparse_reconstruction demo_world demo_args s)) = colmap_mask_args s"
  using assms
  by (simp_all add: sparse_reconstruction_def check_mapping_result_def run_command_def cmd_mapper_def
      info_def emit_def error_exit_def fs_defs path_defs demo_defs Let_def)

lemma demo_undistort:
  assumes "fs s = demo_fs2"
  shows "fst (undistort demo_world demo_args s) = Ok"
    "fs (snd (undistort demo_world demo_args s)) = demo_fs3"
    "colmap_mask_args (snd (undistort demo_world demo_args s)) = colmap_mask_args s"
  using assms
  by (simp_all add: undistort_def check_undistort_result_def run_command_def cmd_undistort_def
      info_def emit_def error_exit_def fs_defs path_defs demo_defs Let_def)

lemma demo_dense:
  assumes "fs s = demo_fs3"
  shows "fst (dense_masks_step demo_args s) = Ok"
    "fs (snd (dense_masks_step demo_args s)) = demo_fs4"
    "colmap_mask_args (snd (dense_masks_step demo_args s)) = colmap_mask_args s"
  using assms
  by (simp_all add: dense_masks_step_def do_mkdir_def info_def warning_def emit_def
      fs_defs path_defs demo_defs demo_fs4_def Let_def)

subsection \<open>Runs through the sections\<close>

lemma spawn_in_procs: "Spawn c e out \<in> set tr \<longleftrightarrow> (c, e, out) \<in> set (procs tr)"
  by (induction tr rule: procs.induct) auto

lemma main_from:
  assumes "reached w a t k s"
  shows "main w a t = seq (drop k (stages w a)) s"
proof -
  have "main w a t = seq (take k (stages w a) @ drop k (stages w a)) (start t)"
    by (simp add: main_def)
  also have "\<dots> = seq (drop k (stages w a)) s"
    using assms unfolding reached_def by (simp add: seq_append del: append_take_drop_id)
  finally show ?thesis .
qed

lemma seq_prefix_ok:
  assumes "seq ms s0 = (Ok, s)"
  shows "\<exists>s'. seq (take k ms) s0 = (Ok, s')"
proof -
  have "seq (take k ms @ drop k ms) s0 = (Ok, s)" using assms by simp
  then show ?thesis
    by (cases "seq (take k ms) s0") (auto simp: seq_append simp del: append_take_drop_id split: res.splits)
qed

lemma reached_Suc:
  assumes "reached w a t (Suc k) s" "k < 9"
  shows "\<exists>s0. reached w a t k s0 \<and> (stages w a ! k) s0 = (Ok, s)"
proof -
  have len: "k < length (stages w a)" using assms(2) by (simp add: stages_def)
  have "seq (take k (stages w a) @ [stages w a ! k]) (start t) = (Ok, s)"
    using assms(1) len by (simp add: reached_def take_Suc_conv_app_nth)
  then show ?thesis
    by (cases "seq (take k (stages w a)) (start t)")
       (auto simp: seq_append reached_def split: res.splits prod.splits)
qed

lemma seq_append_ok:
  assumes "seq (xs @ ys) s = (Ok, s')"
  shows "\<exists>s1. seq xs s = (Ok, s1) \<and> seq ys s1 = (Ok, s')"
  using assms by (cases "seq xs s") (auto simp: seq_append split: res.splits)

lemma sparse_reconstruction_ok:
  assumes "sparse_reconstruction w a s = (Ok, s')"
  shows "exists (fs s') (joinpath (sparse_dir a) ''0'')"
proof -
  have "seq ([info ''3/5 COLMAP: mapper (sparse SfM)'', run_command w (cmd_mapper a) True None]
             @ [check_mapping_result a]) s = (Ok, s')"
    using assms by (simp add: sparse_reconstruction_def)
  from seq_append_ok[OF this] obtain s1 where "seq [check_mapping_result a] s1 = (Ok, s')"
    by blast
  then show ?thesis
    by (auto simp: check_mapping_result_def error_exit_def split: if_splits)
qed

lemma undistort_ok:
  assumes "undistort w a s = (Ok, s')"
  shows "exists (fs s') (brush_images_path a) \<and> exists (fs s') (brush_sparse_path a)"
proof -
  have "seq ([info ''4/5 COLMAP: image_undistorter (creates dense/0/images + dense/0/sparse)'',
              run_command w (cmd_undistort a) True None]
             @ [check_undistort_result a, info (''Dataset for Brush: '' @ path_str (brush_data_path a))]) s
        = (Ok, s')"
    using assms by (simp add: undistort_def)
  from seq_append_ok[OF this] obtain s1 where
    "seq [check_undistort_result a, info (''Dataset for Brush: '' @ path_str (brush_data_path a))] s1 = (Ok, s')"
    by blast
  then show ?thesis
    by (auto simp: check_undistort_result_def error_exit_def info_def emit_def split: if_splits)
qed

subsection \<open>The Brush argument list\<close>

text \<open>
  C10. For every choice of the command-line arguments, the Brush command gets the same
  value for \<open>--eval-every\<close> as for \<open>--export-every\<close>, namely \<open>brush_export_every\<close>, and
  \<open>--max-resolution\<close> gets \<open>undistort_max_image_size\<close>.
\<close>

theorem brush_coupled_options:
  "opt_value ''--eval-every'' (cmd_brush a) = opt_value ''--export-every'' (cmd_brush a)
   \<and> opt_value ''--export-every'' (cmd_brush a) = Some (str_int (brush_export_every a))
   \<and> opt_value ''--max-resolution'' (cmd_brush a) = Some (str_int (undistort_max_image_size a))"
  by (simp add: opt_value_def cmd_brush_def brush_max_resolution_def)

lemma demo_run6:
  obtains s6 where "reached demo_world demo_args demo_fs 6 s6" "fs s6 = demo_fs3"
    "colmap_mask_args s6 = [''--ImageReader.mask_path'', ''masks'']"
proof -
  define s1 where "s1 = snd (checks_and_setup demo_args (start demo_fs))"
  define s2 where "s2 = snd (auto_mask_detection demo_args s1)"
  define s3 where "s3 = snd (feature_extraction demo_world demo_args s2)"
  define s4 where "s4 = snd (matching demo_world demo_args s3)"
  define s5 where "s5 = snd (sparse_reconstruction demo_world demo_args s4)"
  define s6 where "s6 = snd (undistort demo_world demo_args s5)"
  have f0: "fs (start demo_fs) = demo_fs" by (simp add: start_def)
  note r1 = demo_setup[OF f0, folded s1_def]
  note r2 = demo_detection[OF r1(2), folded s2_def]
  note r3 = demo_feature[OF r2(2), folded s3_def]
  note r4 = demo_matching[OF r3(2), folded s4_def]
  note r5 = demo_mapper[OF r4(2), folded s5_def]
  note r6 = demo_undistort[OF r5(2), folded s6_def]
  have "seq (take 6 (stages demo_world demo_args)) (start demo_fs)
        = seq [checks_and_setup demo_args, auto_mask_detection demo_args,
               feature_extraction demo_world demo_args, matching demo_world demo_args,
               sparse_reconstruction demo_world demo_args, undistort demo_world demo_args]
            (start demo_fs)"
    by (simp add: stages_def)
  also have "\<dots> = seq [auto_mask_detection demo_args,
               feature_extraction demo_world demo_args, matching demo_world demo_args,
               sparse_reconstruction demo_world demo_args, undistort demo_world demo_args] s1"
    unfolding s1_def by (rule seq_Cons_ok) (rule demo_setup(1)[OF f0])
  also have "\<dots> = seq [feature_extraction demo_world demo_args, matching demo_world demo_args,
               sparse_reconstruction demo_world demo_args, undistort demo_world demo_args] s2"
    unfolding s2_def by (rule seq_Cons_ok) (rule demo_detection(1)[OF r1(2)])
  also have "\<dots> = seq [matching demo_world demo_args,
               sparse_reconstruction demo_world demo_args, undistort demo_world demo_args] s3"
    unfolding s3_def by (rule seq_Cons_ok) (rule demo_feature(1)[OF r2(2)])
  also have "\<dots> = seq [sparse_reconstruction demo_world demo_args, undistort demo_world demo_args] s4"
    unfolding s4_def by (rule seq_Cons_ok) (rule demo_matching(1)[OF r3(2)])
  also have "\<dots> = seq [undistort demo_world demo_args] s5"
    unfolding s5_def by (rule seq_Cons_ok) (rule demo_mapper(1)[OF r4(2)])
  also have "\<dots> = seq [] s6"
    unfolding s6_def by (rule seq_Cons_ok) (rule demo_undistort(1)[OF r5(2)])
  finally have "reached demo_world demo_args demo_fs 6 s6" by (simp add: reached_def)
  moreover have "colmap_mask_args s6 = [''--ImageReader.mask_path'', ''masks'']"
    using r2(3) r3(3) r4(3) r5(3) r6(3) by simp
  ultimately show ?thesis using r6(2) that by blast
qed

lemma demo_run7:
  obtains s6 s7 where "reached demo_world demo_args demo_fs 6 s6"
    "dense_masks_step demo_args s6 = (Ok, s7)" "fs s6 = demo_fs3" "fs s7 = demo_fs4"
proof -
  from demo_run6 obtain s6 where 6: "reached demo_world demo_args demo_fs 6 s6" "fs s6 = demo_fs3"
    by blast
  from demo_dense[OF 6(2)] have "dense_masks_step demo_args s6 = (Ok, snd (dense_masks_step demo_args s6))"
    "fs (snd (dense_masks_step demo_args s6)) = demo_fs4"
    by (simp_all add: prod_eq_iff)
  with 6 that show ?thesis by blast
qed



subsection \<open>The order of the child processes\<close>

text \<open>
  C1, as amended. A run that reaches completion has started the four COLMAP commands in
  the order feature_extractor, exhaustive_matcher, mapper, image_undistorter, followed by
  the Brush command exactly when \<open>run_brush\<close> is 1, and nothing else; each of them returned
  0 before the next was started. Two of them are gated on the file system: the undistorter
  is started only in a state where \<open>sparse/0\<close> exists, and the sections after the
  undistorter only in a state where \<open>dense/0/images\<close> and \<open>dense/0/sparse\<close> exist.
\<close>

theorem completed_run_invocations:
  assumes "main w a t = (Ok, s)"
  shows "procs (trace s) = map ok (plan w a (colmap_mask_args s))
         \<and> length (spawned (trace s)) = (if run_brush a = 1 then 5 else 4)
         \<and> (\<exists>s5. reached w a t 5 s5 \<and> exists (fs s5) (joinpath (sparse_dir a) ''0''))
         \<and> (\<exists>s6. reached w a t 6 s6 \<and> exists (fs s6) (brush_images_path a)
                \<and> exists (fs s6) (brush_sparse_path a))"
proof -
  from main_shape[OF assms] have p: "procs (trace s) = map ok (plan w a (colmap_mask_args s))"
    by (auto simp: shape_def quiet_def)
  then have n: "length (spawned (trace s)) = (if run_brush a = 1 then 5 else 4)"
    by (simp add: spawned_def plan_length)
  have run: "seq (stages w a) (start t) = (Ok, s)" using assms by (simp add: main_def)
  from seq_prefix_ok[OF run, of 5] obtain s5 where 5: "reached w a t 5 s5"
    by (auto simp: reached_def)
  from reached_Suc[of w a t 4 s5] 5 obtain s4 where
    "sparse_reconstruction w a s4 = (Ok, s5)" by (auto simp: stages_def)
  from sparse_reconstruction_ok[OF this] 5
  have g5: "\<exists>s5. reached w a t 5 s5 \<and> exists (fs s5) (joinpath (sparse_dir a) ''0'')" by blast
  from seq_prefix_ok[OF run, of 6] obtain s6 where 6: "reached w a t 6 s6"
    by (auto simp: reached_def)
  from reached_Suc[of w a t 5 s6] 6 obtain s5' where
    "undistort w a s5' = (Ok, s6)" by (auto simp: stages_def)
  from undistort_ok[OF this] 6
  have g6: "\<exists>s6. reached w a t 6 s6 \<and> exists (fs s6) (brush_images_path a)
                \<and> exists (fs s6) (brush_sparse_path a)" by blast
  from p n g5 g6 show ?thesis by blast
qed

lemma demo_main:
  "fst (main demo_world demo_args demo_fs) = Ok"
  "length (spawned (trace (snd (main demo_world demo_args demo_fs)))) = 4"
proof -
  from demo_run7 obtain s6 s7 where r: "reached demo_world demo_args demo_fs 6 s6"
    "dense_masks_step demo_args s6 = (Ok, s7)" by blast
  have zero: "run_brush demo_args = 0" by (simp add: demo_args_def)
  have "main demo_world demo_args demo_fs
        = seq [dense_masks_step demo_args, brush_training demo_world demo_args, info ''DONE''] s6"
    using main_from[OF r(1)] by (simp add: stages_def)
  then have m: "main demo_world demo_args demo_fs = (Ok, emit (Log INFO ''DONE'') s7)"
    using r(2) zero by (simp add: info_def brush_training_def)
  then show "fst (main demo_world demo_args demo_fs) = Ok" by simp
  from main_shape[OF m] have "procs (trace (emit (Log INFO ''DONE'') s7))
      = map ok (plan demo_world demo_args (colmap_mask_args (emit (Log INFO ''DONE'') s7)))"
    by (auto simp: shape_def quiet_def)
  with m zero show "length (spawned (trace (snd (main demo_world demo_args demo_fs)))) = 4"
    by (simp add: spawned_def plan_length)
qed

theorem completed_run_invocations_witness:
  "fst (main demo_world demo_args demo_fs) = Ok
   \<and> procs (trace (snd (main demo_world demo_args demo_fs)))
       = map ok (plan demo_world demo_args
                   (colmap_mask_args (snd (main demo_world demo_args demo_fs))))
   \<and> length (spawned (trace (snd (main demo_world demo_args demo_fs)))) = 4"
proof -
  have m: "main demo_world demo_args demo_fs = (Ok, snd (main demo_world demo_args demo_fs))"
    using demo_main(1) by (simp add: prod_eq_iff)
  have zero: "run_brush demo_args = 0" by (simp add: demo_args_def)
  from completed_run_invocations[OF m] zero demo_main(1) show ?thesis by simp
qed

text \<open>
  The claim as stated fails: with \<open>run_brush = 0\<close> the sample run reaches completion after
  four child processes, not five; and its feature extractor, started in the file system
  \<open>demo_fs1\<close>, leaves that file system as it found it, so the matcher that follows is
  gated on the exit code alone.
\<close>

theorem four_invocations_counterexample:
  "run_brush demo_args = 0
   \<and> fst (main demo_world demo_args demo_fs) = Ok
   \<and> length (spawned (trace (snd (main demo_world demo_args demo_fs)))) = 4
   \<and> spawn demo_world (cmd_feature demo_args [''--ImageReader.mask_path'', ''masks''])
         (environ demo_world) demo_fs1 = Returned 0 demo_fs1"
  using demo_main by (simp add: demo_args_def demo_world_def demo_spawn_def cmd_feature_def)

subsection \<open>A command that fails\<close>

lemma demo_failing:
  "main failing_world demo_args demo_fs
   = (SysExit 3, snd (main failing_world demo_args demo_fs))"
  "Spawn (cmd_feature demo_args [''--ImageReader.mask_path'', ''masks'']) None (Exited 3)
   \<in> set (trace (snd (main failing_world demo_args demo_fs)))"
proof -
  define s1 where "s1 = snd (checks_and_setup demo_args (start demo_fs))"
  define s2 where "s2 = snd (auto_mask_detection demo_args s1)"
  have f0: "fs (start demo_fs) = demo_fs" by (simp add: start_def)
  note r1 = demo_setup[OF f0, folded s1_def]
  note r2 = demo_detection[OF r1(2), folded s2_def]
  have "main failing_world demo_args demo_fs
        = seq (checks_and_setup demo_args # auto_mask_detection demo_args
               # feature_extraction failing_world demo_args # drop 3 (stages failing_world demo_args))
            (start demo_fs)"
    by (simp add: main_def stages_def)
  also have "\<dots> = seq (auto_mask_detection demo_args
               # feature_extraction failing_world demo_args # drop 3 (stages failing_world demo_args)) s1"
    unfolding s1_def by (rule seq_Cons_ok) (rule demo_setup(1)[OF f0])
  also have "\<dots> = seq (feature_extraction failing_world demo_args
               # drop 3 (stages failing_world demo_args)) s2"
    unfolding s2_def by (rule seq_Cons_ok) (rule demo_detection(1)[OF r1(2)])
  finally have m: "main failing_world demo_args demo_fs
      = seq (feature_extraction failing_world demo_args # drop 3 (stages failing_world demo_args)) s2" .
  have fe: "fst (feature_extraction failing_world demo_args s2) = SysExit 3"
    "Spawn (cmd_feature demo_args [''--ImageReader.mask_path'', ''masks'']) None (Exited 3)
     \<in> set (trace (snd (feature_extraction failing_world demo_args s2)))"
    using r2(3)
    by (simp_all add: feature_extraction_def run_command_def cmd_feature_def info_def emit_def
        failing_world_def Let_def)
  have "main failing_world demo_args demo_fs = feature_extraction failing_world demo_args s2"
    unfolding m using fe(1) by (cases "feature_extraction failing_world demo_args s2") auto
  with fe show "main failing_world demo_args demo_fs
      = (SysExit 3, snd (main failing_world demo_args demo_fs))"
    "Spawn (cmd_feature demo_args [''--ImageReader.mask_path'', ''masks'']) None (Exited 3)
     \<in> set (trace (snd (main failing_world demo_args demo_fs)))"
    by (simp_all add: prod_eq_iff)
qed

text \<open>
  C2. Every command goes through \<open>run_command\<close> with \<open>check\<close> on. In any run, a child process
  that did not return 0 (a non-zero code, or no executable) is the last child process of
  the run: the error line logged for it is the last event, the run exits with the code of
  the child, or with 1 when the executable was missing, and every process before it
  returned 0, so the command is not started a second time. The exit status of a run is 0
  exactly when every section fell through, and then every child process returned 0.
\<close>

theorem failed_command_ends_run:
  assumes "main w a t = (r, s)"
  shows "(\<forall>c e out. Spawn c e out \<in> set (trace s) \<and> out \<noteq> Exited 0 \<longrightarrow>
            r = SysExit (case out of Missing \<Rightarrow> 1 | Exited rc \<Rightarrow> rc)
            \<and> exit_status r \<noteq> 0
            \<and> (\<exists>pre. trace s = pre @ [Spawn c e out, Log ERROR (failure_msg c out)]
                  \<and> (\<forall>p\<in>set (procs pre). snd (snd p) = Exited 0)))
         \<and> ((exit_status r = 0) = (r = Ok))
         \<and> (r = Ok \<longrightarrow> (\<forall>p\<in>set (procs (trace s)). snd (snd p) = Exited 0))"
proof -
  let ?pl = "plan w a (colmap_mask_args s)"
  have allok: "\<forall>p\<in>set (map ok xs). snd (snd p) = Exited 0" for xs
    by (auto simp: ok_def)
  have nofail: "out = Exited 0" if "procs tr = map ok xs" "Spawn c e out \<in> set tr" for tr xs c e out
    using that by (auto simp: spawn_in_procs ok_def)
  have st: "status out \<noteq> 0" if "out \<noteq> Exited 0" for out
    using that by (cases out) (auto simp: status_def)
  from main_shape[OF assms] consider
      (complete) "r = Ok" "procs (trace s) = map ok ?pl"
    | (quietly) n where "quiet r" "procs (trace s) = map ok (take n ?pl)"
    | (fail) n out pre where "n < length ?pl" "out \<noteq> Exited 0" "procs pre = map ok (take n ?pl)"
        "trace s = pre @ [Spawn (fst (?pl ! n)) (snd (?pl ! n)) out,
                          Log ERROR (failure_msg (fst (?pl ! n)) out)]"
        "r = SysExit (status out)"
    unfolding shape_def by blast
  then show ?thesis
  proof cases
    case complete
    have "\<forall>p\<in>set (procs (trace s)). snd (snd p) = Exited 0"
      using complete(2) allok[of ?pl] by simp
    moreover have "exit_status r = 0" using complete(1) by (simp add: exit_status_def)
    ultimately show ?thesis using complete(1) nofail[OF complete(2)] by blast
  next
    case quietly
    have "exit_status r \<noteq> 0" "r \<noteq> Ok"
      using quietly(1) by (auto simp: exit_status_def quiet_def split: res.splits)
    then show ?thesis using nofail[OF quietly(2)] by blast
  next
    case fail
    have pre_ok: "\<forall>p\<in>set (procs pre). snd (snd p) = Exited 0"
      using fail(3) allok[of "take n ?pl"] by simp
    have only: "c = fst (?pl ! n) \<and> e = snd (?pl ! n) \<and> out' = out"
      if "Spawn c e out' \<in> set (trace s)" "out' \<noteq> Exited 0" for c e out'
    proof -
      from that(1) fail(4) have "Spawn c e out' \<in> set pre \<or> Spawn c e out' = Spawn (fst (?pl ! n)) (snd (?pl ! n)) out"
        by auto
      moreover have "Spawn c e out' \<notin> set pre"
        using pre_ok that(2) by (auto simp: spawn_in_procs)
      ultimately show ?thesis by simp
    qed
    have r: "r = SysExit (case out of Missing \<Rightarrow> 1 | Exited rc \<Rightarrow> rc)"
      using fail(5) by (simp add: status_def)
    have ne: "exit_status r \<noteq> 0" using fail(5) st[OF fail(2)] by (simp add: exit_status_def)
    have "r = SysExit (case out' of Missing \<Rightarrow> 1 | Exited rc \<Rightarrow> rc)
          \<and> exit_status r \<noteq> 0
          \<and> (\<exists>pre. trace s = pre @ [Spawn c e out', Log ERROR (failure_msg c out')]
                \<and> (\<forall>p\<in>set (procs pre). snd (snd p) = Exited 0))"
      if "Spawn c e out' \<in> set (trace s)" "out' \<noteq> Exited 0" for c e out'
      using only[OF that] r ne fail(4) pre_ok by blast
    moreover have "(exit_status r = 0) = (r = Ok)" using ne fail(5) by simp
    moreover have "r \<noteq> Ok" using fail(5) by simp
    ultimately show ?thesis by blast
  qed
qed

theorem failed_command_ends_run_witness:
  "Spawn (cmd_feature demo_args [''--ImageReader.mask_path'', ''masks'']) None (Exited 3)
     \<in> set (trace (snd (main failing_world demo_args demo_fs)))
   \<and> fst (main failing_world demo_args demo_fs) = SysExit 3
   \<and> exit_status (fst (main failing_world demo_args demo_fs)) = 3
   \<and> (\<exists>pre. trace (snd (main failing_world demo_args demo_fs))
         = pre @ [Spawn (cmd_feature demo_args [''--ImageReader.mask_path'', ''masks'']) None (Exited 3),
                  Log ERROR (failure_msg (cmd_feature demo_args [''--ImageReader.mask_path'', ''masks''])
                               (Exited 3))])"
proof -
  note th = failed_command_ends_run[OF demo_failing(1)]
  have ne: "Exited 3 \<noteq> Exited 0" by simp
  from th demo_failing(2) ne
  have "\<exists>pre. trace (snd (main failing_world demo_args demo_fs))
         = pre @ [Spawn (cmd_feature demo_args [''--ImageReader.mask_path'', ''masks'']) None (Exited 3),
                  Log ERROR (failure_msg (cmd_feature demo_args [''--ImageReader.mask_path'', ''masks''])
                               (Exited 3))]"
    by blast
  moreover have "fst (main failing_world demo_args demo_fs) = SysExit 3"
    using demo_failing(1) by (simp add: prod_eq_iff)
  ultimately show ?thesis using demo_failing(2) by (simp add: exit_status_def)
qed

subsection \<open>Parameters and masks\<close>

lemma run_uses_plan:
  assumes "main w a t = (r, s)" "Spawn c e out \<in> set (trace s)"
  shows "(c, e) \<in> set (plan w a (colmap_mask_args s))"
proof -
  let ?pl = "plan w a (colmap_mask_args s)"
  have sub: "(c, e) \<in> set ?pl" if "procs tr = map ok (take n ?pl)" "Spawn c e out \<in> set tr" for tr n
  proof -
    from that have "(c, e, out) \<in> set (map ok (take n ?pl))" by (simp add: spawn_in_procs)
    then have "(c, e) \<in> set (take n ?pl)" by (auto simp: ok_def)
    then show ?thesis by (rule in_set_takeD)
  qed
  from main_shape[OF assms(1)] consider
      (complete) "procs (trace s) = map ok (take (length ?pl) ?pl)"
    | (quietly) n where "procs (trace s) = map ok (take n ?pl)"
    | (fail) n out' pre where "n < length ?pl" "procs pre = map ok (take n ?pl)"
        "trace s = pre @ [Spawn (fst (?pl ! n)) (snd (?pl ! n)) out',
                          Log ERROR (failure_msg (fst (?pl ! n)) out')]"
    unfolding shape_def by auto
  then show ?thesis
  proof cases
    case complete
    from sub[OF this assms(2)] show ?thesis .
  next
    case quietly
    from sub[OF this assms(2)] show ?thesis .
  next
    case fail
    from assms(2) fail(3) have "Spawn c e out \<in> set pre \<or> (c, e) = ?pl ! n" by auto
    then show ?thesis
    proof
      assume "Spawn c e out \<in> set pre"
      from sub[OF fail(2) this] show ?thesis .
    next
      assume "(c, e) = ?pl ! n"
      with fail(1) show ?thesis by (metis nth_mem)
    qed
  qed
qed

text \<open>
  C7. The tunable parameters reach the argument lists unchanged (an integer as the decimal
  text \<open>str\<close> gives for it): four in the feature-extractor list, four in the mapper list,
  one in the undistorter list, five in the Brush list. A device that is given (and not the
  empty string) is the value of \<open>CUBECL_DEFAULT_DEVICE\<close> in the environment passed to Brush;
  otherwise Brush gets the environment of the script. Every child process of every run is
  started with an argument list and an environment of the plan, which holds these lists.
\<close>

theorem parameters_forwarded:
  "opt_value ''--ImageReader.camera_model'' (cmd_feature a m) = Some (camera_model a)
   \<and> opt_value ''--ImageReader.single_camera'' (cmd_feature a m) = Some (str_int (single_camera a))
   \<and> opt_value ''--SiftExtraction.max_image_size'' (cmd_feature a m)
       = Some (str_int (sfm_max_image_size a))
   \<and> opt_value ''--SiftExtraction.max_num_features'' (cmd_feature a m)
       = Some (str_int (sift_max_num_features a))
   \<and> opt_value ''--Mapper.min_num_matches'' (cmd_mapper a) = Some (str_int (min_num_matches a))
   \<and> opt_value ''--Mapper.ba_refine_focal_length'' (cmd_mapper a)
       = Some (str_int (refine_focal_length a))
   \<and> opt_value ''--Mapper.ba_refine_extra_params'' (cmd_mapper a)
       = Some (str_int (refine_extra_params a))
   \<and> opt_value ''--Mapper.ba_refine_principal_point'' (cmd_mapper a)
       = Some (str_int (refine_principal_point a))
   \<and> opt_value ''--max_image_size'' (cmd_undistort a) = Some (str_int (undistort_max_image_size a))
   \<and> opt_value ''--total-steps'' (cmd_brush a) = Some (str_int (brush_total_steps a))
   \<and> opt_value ''--max-splats'' (cmd_brush a) = Some (str_int (brush_max_splats a))
   \<and> opt_value ''--export-every'' (cmd_brush a) = Some (str_int (brush_export_every a))
   \<and> opt_value ''--eval-split-every'' (cmd_brush a) = Some (str_int (brush_eval_split_every a))
   \<and> opt_value ''--export-name'' (cmd_brush a) = Some (brush_export_name a)
   \<and> (cubecl_default_device a = Some d \<and> d \<noteq> [] \<longrightarrow>
         brush_env w a ''CUBECL_DEFAULT_DEVICE'' = Some d)
   \<and> (\<not> device_given a \<longrightarrow> brush_env w a = environ w)
   \<and> (main w a t = (r, s) \<and> Spawn c e out \<in> set (trace s) \<longrightarrow>
         (c, e) \<in> set (plan w a (colmap_mask_args s)))
   \<and> set (plan w a m) \<subseteq> {(cmd_feature a m, None), (cmd_match a, None), (cmd_mapper a, None),
                            (cmd_undistort a, None), (cmd_brush a, Some (brush_env w a))}"
proof -
  have feature: "opt_value ''--ImageReader.camera_model'' (cmd_feature a m) = Some (camera_model a)"
    "opt_value ''--ImageReader.single_camera'' (cmd_feature a m) = Some (str_int (single_camera a))"
    "opt_value ''--SiftExtraction.max_image_size'' (cmd_feature a m) = Some (str_int (sfm_max_image_size a))"
    "opt_value ''--SiftExtraction.max_num_features'' (cmd_feature a m) = Some (str_int (sift_max_num_features a))"
    by (simp_all add: opt_value_def cmd_feature_def)
  have mapper: "opt_value ''--Mapper.min_num_matches'' (cmd_mapper a) = Some (str_int (min_num_matches a))"
    "opt_value ''--Mapper.ba_refine_focal_length'' (cmd_mapper a) = Some (str_int (refine_focal_length a))"
    "opt_value ''--Mapper.ba_refine_extra_params'' (cmd_mapper a) = Some (str_int (refine_extra_params a))"
    "opt_value ''--Mapper.ba_refine_principal_point'' (cmd_mapper a) = Some (str_int (refine_principal_point a))"
    by (simp_all add: opt_value_def cmd_mapper_def)
  have undist: "opt_value ''--max_image_size'' (cmd_undistort a) = Some (str_int (undistort_max_image_size a))"
    by (simp add: opt_value_def cmd_undistort_def)
  have brush: "opt_value ''--total-steps'' (cmd_brush a) = Some (str_int (brush_total_steps a))"
    "opt_value ''--max-splats'' (cmd_brush a) = Some (str_int (brush_max_splats a))"
    "opt_value ''--export-every'' (cmd_brush a) = Some (str_int (brush_export_every a))"
    "opt_value ''--eval-split-every'' (cmd_brush a) = Some (str_int (brush_eval_split_every a))"
    "opt_value ''--export-name'' (cmd_brush a) = Some (brush_export_name a)"
    by (simp_all add: opt_value_def cmd_brush_def)
  have env: "cubecl_default_device a = Some d \<and> d \<noteq> [] \<longrightarrow>
         brush_env w a ''CUBECL_DEFAULT_DEVICE'' = Some d"
    "\<not> device_given a \<longrightarrow> brush_env w a = environ w"
    by (auto simp: brush_env_def device_given_def split: option.splits)
  have uses: "main w a t = (r, s) \<and> Spawn c e out \<in> set (trace s) \<longrightarrow>
         (c, e) \<in> set (plan w a (colmap_mask_args s))"
    using run_uses_plan by blast
  have pl: "set (plan w a m) \<subseteq> {(cmd_feature a m, None), (cmd_match a, None), (cmd_mapper a, None),
                            (cmd_undistort a, None), (cmd_brush a, Some (brush_env w a))}"
    by (auto simp: plan_def)
  from feature mapper undist brush env uses pl show ?thesis by blast
qed

theorem parameters_forwarded_witness:
  "cubecl_default_device demo_args = Some ''1''
   \<and> brush_env failing_world demo_args ''CUBECL_DEFAULT_DEVICE'' = Some ''1''
   \<and> opt_value ''--ImageReader.camera_model'' (cmd_feature demo_args []) = Some ''OPENCV''
   \<and> opt_value ''--export-name'' (cmd_brush demo_args) = Some ''scene.ply''
   \<and> (cmd_feature demo_args [''--ImageReader.mask_path'', ''masks''], None)
       \<in> set (plan failing_world demo_args
                 (colmap_mask_args (snd (main failing_world demo_args demo_fs))))"
proof -
  note th = parameters_forwarded[where a = demo_args and m = "[]" and d = "''1''"
      and w = failing_world and t = demo_fs and r = "SysExit 3"
      and s = "snd (main failing_world demo_args demo_fs)"
      and c = "cmd_feature demo_args [''--ImageReader.mask_path'', ''masks'']"
      and e = None and out = "Exited 3"]
  have d: "cubecl_default_device demo_args = Some ''1''" "camera_model demo_args = ''OPENCV''"
    "brush_export_name demo_args = ''scene.ply''"
    by (simp_all add: demo_args_def)
  from th d demo_failing show ?thesis by simp
qed

text \<open>
  C8. A file counts as a COLMAP mask when it is a regular file whose suffix, in lower case,
  is a dot and the extension in lower case: the case of neither matters. The dense masks
  are picked by the pattern \<open>*.ext\<close>, where case matters. In the sample file system the only
  entry of \<open>masks\<close> is \<open>a.PNG\<close>; with the extension \<open>png\<close> it switches the COLMAP mask
  arguments on, and the same directory, given as the dense mask directory, yields no file
  to copy: the step logs a warning and changes nothing.
\<close>

theorem mask_matching_asymmetry:
  "is_mask t ext p = (is_file t p \<and> lower (suffix p) = ''.'' @ lower ext)
   \<and> is_mask demo_fs (mask_ext caps_args) [''masks'', ''a.PNG'']
   \<and> colmap_mask_args (snd (auto_mask_detection caps_args (start demo_fs)))
       = [''--ImageReader.mask_path'', ''masks'']
   \<and> fnmatch (''*.'' @ mask_ext caps_args) ''a.png''
   \<and> \<not> fnmatch (''*.'' @ mask_ext caps_args) ''a.PNG''
   \<and> glob demo_fs [''masks''] (''*.'' @ mask_ext caps_args) = []
   \<and> dense_masks_step caps_args (start demo_fs)
       = (Ok, emit (Log WARNING ''DENSE_MASKS_DIR provided but no *.png files found.'')
                (start demo_fs))"
proof -
  have general: "is_mask t ext p = (is_file t p \<and> lower (suffix p) = ''.'' @ lower ext)"
    by (simp add: is_mask_def lower_def lower_char_def)
  have ext: "mask_ext caps_args = ''png''" "masks_dir caps_args = Some [''masks'']"
    "dense_masks_dir caps_args = Some [''masks'']" "images_dir caps_args = [''imgs'']"
    by (simp_all add: caps_args_def demo_args_def)
  have m: "is_mask demo_fs ''png'' [''masks'', ''a.PNG'']"
    by (simp add: is_mask_def is_file_def demo_fs_def suffix_def suffix_of_name_def path_name_def
        lower_def lower_char_def)
  have det: "colmap_mask_args (snd (auto_mask_detection caps_args (start demo_fs)))
       = [''--ImageReader.mask_path'', ''masks'']"
    by (simp add: auto_mask_detection_def ext count_images_def extensions_def is_mask_def
        suffix_def suffix_of_name_def lower_def lower_char_def path_str_def start_def
        info_def warning_def emit_def fs_defs demo_fs_def Let_def)
  have fn: "fnmatch ''*.png'' ''a.png''" "\<not> fnmatch ''*.png'' ''a.PNG''"
    by simp_all
  have g: "glob demo_fs [''masks''] ''*.png'' = []"
    by (simp add: glob_def demo_fs_def)
  have dm: "dense_masks_step caps_args (start demo_fs)
       = (Ok, emit (Log WARNING ''DENSE_MASKS_DIR provided but no *.png files found.'')
                (start demo_fs))"
    using g by (simp add: dense_masks_step_def ext start_def exists_def demo_fs_def warning_def)
  from general m det fn g dm show ?thesis by (simp add: ext)
qed

subsection \<open>Commands that return\<close>

lemma run_command_returned:
  assumes "cmd \<noteq> []"
    and "spawn w cmd (case env of None \<Rightarrow> environ w | Some e \<Rightarrow> e) (fs s) = Returned rc t"
  shows "run_command w cmd True env s =
     (if rc = 0 then
        (Ok, s\<lparr>trace := trace s @ [Log INFO (''Running: '' @ join '' '' cmd),
                                    Spawn cmd env (Exited 0)], fs := t\<rparr>)
      else
        (SysExit rc, s\<lparr>trace := trace s @ [Log INFO (''Running: '' @ join '' '' cmd),
                                            Spawn cmd env (Exited rc),
                                            Log ERROR (failure_msg cmd (Exited rc))], fs := t\<rparr>))"
proof -
  obtain exe rest where "cmd = exe # rest" using assms(1) by (cases cmd) auto
  with assms(2) show ?thesis
    by (simp add: run_command_def Let_def emit_def failure_msg_def)
qed

lemma feature_extraction_returned:
  assumes "spawn w (cmd_feature a (colmap_mask_args s)) (environ w) (fs s) = Returned 0 t"
  shows "feature_extraction w a s =
     (Ok, s\<lparr>trace := trace s @ [Log INFO ''1/5 COLMAP: feature extraction'',
            Log INFO (''Running: '' @ join '' '' (cmd_feature a (colmap_mask_args s))),
            Spawn (cmd_feature a (colmap_mask_args s)) None (Exited 0)], fs := t\<rparr>)"
proof -
  let ?s1 = "emit (Log INFO ''1/5 COLMAP: feature extraction'') s"
  have ne: "cmd_feature a (colmap_mask_args ?s1) \<noteq> []" by (simp add: cmd_feature_def)
  have sp: "spawn w (cmd_feature a (colmap_mask_args ?s1)) (case None of None \<Rightarrow> environ w | Some e \<Rightarrow> e) (fs ?s1)
            = Returned 0 t"
    using assms by (simp add: emit_def)
  show ?thesis
    unfolding feature_extraction_def
    by (simp add: info_def run_command_returned[OF ne sp]) (simp add: emit_def)
qed

lemma matching_returned:
  assumes "spawn w (cmd_match a) (environ w) (fs s) = Returned 0 t"
  shows "matching w a s =
     (Ok, s\<lparr>trace := trace s @ [Log INFO ''2/5 COLMAP: exhaustive matching'',
            Log INFO (''Running: '' @ join '' '' (cmd_match a)),
            Spawn (cmd_match a) None (Exited 0)], fs := t\<rparr>)"
proof -
  let ?s1 = "emit (Log INFO ''2/5 COLMAP: exhaustive matching'') s"
  have ne: "cmd_match a \<noteq> []" by (simp add: cmd_match_def)
  have sp: "spawn w (cmd_match a) (case None of None \<Rightarrow> environ w | Some e \<Rightarrow> e) (fs ?s1)
            = Returned 0 t"
    using assms by (simp add: emit_def)
  show ?thesis
    unfolding matching_def
    by (simp add: info_def run_command_returned[OF ne sp]) (simp add: emit_def)
qed

lemma sparse_reconstruction_returned:
  assumes "spawn w (cmd_mapper a) (environ w) (fs s) = Returned 0 t"
  shows "sparse_reconstruction w a s =
     (if exists t (joinpath (sparse_dir a) ''0'') then
        (Ok, s\<lparr>trace := trace s @ [Log INFO ''3/5 COLMAP: mapper (sparse SfM)'',
               Log INFO (''Running: '' @ join '' '' (cmd_mapper a)),
               Spawn (cmd_mapper a) None (Exited 0)], fs := t\<rparr>)
      else
        (SysExit 1, s\<lparr>trace := trace s @ [Log INFO ''3/5 COLMAP: mapper (sparse SfM)'',
               Log INFO (''Running: '' @ join '' '' (cmd_mapper a)),
               Spawn (cmd_mapper a) None (Exited 0),
               Log ERROR (''Sparse model not found at '' @ path_str (joinpath (sparse_dir a) ''0'')
                          @ ''. Mapper may have failed.'')], fs := t\<rparr>))"
proof -
  let ?s1 = "emit (Log INFO ''3/5 COLMAP: mapper (sparse SfM)'') s"
  have ne: "cmd_mapper a \<noteq> []" by (simp add: cmd_mapper_def)
  have sp: "spawn w (cmd_mapper a) (case None of None \<Rightarrow> environ w | Some e \<Rightarrow> e) (fs ?s1)
            = Returned 0 t"
    using assms by (simp add: emit_def)
  show ?thesis
    unfolding sparse_reconstruction_def
    by (simp add: info_def run_command_returned[OF ne sp] check_mapping_result_def error_exit_def)
       (simp add: emit_def)
qed

lemma undistort_returned:
  assumes "spawn w (cmd_undistort a) (environ w) (fs s) = Returned 0 t"
  shows "undistort w a s =
     (if exists t (brush_images_path a) \<and> exists t (brush_sparse_path a) then
        (Ok, s\<lparr>trace := trace s @
               [Log INFO ''4/5 COLMAP: image_undistorter (creates dense/0/images + dense/0/sparse)'',
                Log INFO (''Running: '' @ join '' '' (cmd_undistort a)),
                Spawn (cmd_undistort a) None (Exited 0),
                Log INFO (''Dataset for Brush: '' @ path_str (brush_data_path a))], fs := t\<rparr>)
      else
        (SysExit 1, s\<lparr>trace := trace s @
               [Log INFO ''4/5 COLMAP: image_undistorter (creates dense/0/images + dense/0/sparse)'',
                Log INFO (''Running: '' @ join '' '' (cmd_undistort a)),
                Spawn (cmd_undistort a) None (Exited 0),
                Log ERROR (''Expected '' @ path_str (brush_images_path a) @ '' and ''
                           @ path_str (brush_sparse_path a) @ '' to exist after undistort.'')],
               fs := t\<rparr>))"
proof -
  let ?s1 = "emit (Log INFO ''4/5 COLMAP: image_undistorter (creates dense/0/images + dense/0/sparse)'') s"
  have ne: "cmd_undistort a \<noteq> []" by (simp add: cmd_undistort_def)
  have sp: "spawn w (cmd_undistort a) (case None of None \<Rightarrow> environ w | Some e \<Rightarrow> e) (fs ?s1)
            = Returned 0 t"
    using assms by (simp add: emit_def)
  show ?thesis
    unfolding undistort_def
    by (simp add: info_def run_command_returned[OF ne sp] check_undistort_result_def error_exit_def)
       (simp add: emit_def)
qed

subsection \<open>Sections that copy nothing\<close>

lemma calm_seq: "(\<And>m. m \<in> set ms \<Longrightarrow> calm m) \<Longrightarrow> calm (seq ms)"
proof (induction ms)
  case Nil
  show ?case by (simp add: calm_def)
next
  case (Cons m ms)
  have cm: "calm m" and cms: "calm (seq ms)" using Cons by auto
  show ?case unfolding calm_def
  proof (intro allI impI)
    fix s r s' x y assume h: "seq (m # ms) s = (r, s') \<and> Copy x y \<in> set (trace s')"
    obtain r1 s1 where m: "m s = (r1, s1)" by (cases "m s")
    show "Copy x y \<in> set (trace s)"
    proof (cases "r1 = Ok")
      case True
      with h m have "seq ms s1 = (r, s')" by simp
      with cms h have "Copy x y \<in> set (trace s1)" unfolding calm_def by blast
      with cm m show ?thesis unfolding calm_def by blast
    next
      case False
      with h m have "s' = s1" by (auto split: res.splits)
      with cm m h show ?thesis unfolding calm_def by blast
    qed
  qed
qed

lemma calm_info: "calm (info msg)"
  by (auto simp: calm_def info_def emit_def)

lemma calm_error_exit: "calm (error_exit msg)"
  by (auto simp: calm_def error_exit_def emit_def)

lemma calm_do_mkdir: "calm (do_mkdir parents p)"
  by (auto simp: calm_def do_mkdir_def emit_def split: sum.splits if_splits)

lemma calm_run_command: "calm (\<lambda>s. run_command w (c s) check env s)"
  by (auto simp: calm_def run_command_def Let_def error_exit_def emit_def
      split: list.splits proc_result.splits if_splits)

lemma calm_if:
  assumes "calm f" "calm g"
  shows "calm (\<lambda>s. if c s then f s else g s)"
  unfolding calm_def
proof (intro allI impI)
  fix s r s' x y
  assume h: "(if c s then f s else g s) = (r, s') \<and> Copy x y \<in> set (trace s')"
  show "Copy x y \<in> set (trace s)"
  proof (cases "c s")
    case True
    with h have "f s = (r, s')" by simp
    with assms(1) h show ?thesis unfolding calm_def by blast
  next
    case False
    with h have "g s = (r, s')" by simp
    with assms(2) h show ?thesis unfolding calm_def by blast
  qed
qed

lemma calm_skip: "calm (\<lambda>s. (Ok, s))"
  by (simp add: calm_def)

lemma calm_checks_and_setup: "calm (checks_and_setup a)"
  unfolding checks_and_setup_def
  by (intro calm_if calm_error_exit calm_seq) (auto intro: calm_do_mkdir calm_info)

lemma calm_auto_mask_detection: "calm (auto_mask_detection a)"
proof -
  have "\<exists>evs. trace s' = trace s @ evs \<and> (\<forall>x y. Copy x y \<notin> set evs)"
    if "auto_mask_detection a s = (r, s')" for s r s'
    using that
    by (auto simp: auto_mask_detection_def Let_def info_def warning_def emit_def
        split: option.splits sum.splits if_splits)
  then show ?thesis unfolding calm_def by fastforce
qed

lemma calm_feature_extraction: "calm (feature_extraction w a)"
  unfolding feature_extraction_def
  by (rule calm_seq) (auto intro: calm_info calm_run_command)

lemma calm_matching: "calm (matching w a)"
  unfolding matching_def
  using calm_run_command[of w "\<lambda>_. cmd_match a"]
  by (intro calm_seq) (auto intro: calm_info)

lemma calm_sparse_reconstruction: "calm (sparse_reconstruction w a)"
proof -
  have "calm (check_mapping_result a)"
    unfolding check_mapping_result_def by (intro calm_if calm_error_exit calm_skip)
  then show ?thesis
    unfolding sparse_reconstruction_def
    using calm_run_command[of w "\<lambda>_. cmd_mapper a"]
    by (intro calm_seq) (auto intro: calm_info)
qed

lemma calm_undistort: "calm (undistort w a)"
proof -
  have "calm (check_undistort_result a)"
    unfolding check_undistort_result_def by (intro calm_if calm_error_exit calm_skip)
  then show ?thesis
    unfolding undistort_def
    using calm_run_command[of w "\<lambda>_. cmd_undistort a"]
    by (intro calm_seq) (auto intro: calm_info)
qed

lemma calm_first_six:
  assumes "m \<in> set (take 6 (stages w a))"
  shows "calm m"
  using assms calm_checks_and_setup calm_auto_mask_detection calm_feature_extraction
    calm_matching calm_sparse_reconstruction calm_undistort
  by (auto simp: stages_def)

lemma reached_no_copy:
  assumes "reached w a t k s" "k \<le> 6"
  shows "Copy x y \<notin> set (trace s)"
proof -
  have "calm (seq (take k (stages w a)))"
  proof (rule calm_seq)
    fix m assume "m \<in> set (take k (stages w a))"
    then have "m \<in> set (take 6 (stages w a))"
      using assms(2) by (metis set_take_subset_set_take subsetD)
    then show "calm m" by (rule calm_first_six)
  qed
  with assms(1) show ?thesis unfolding calm_def reached_def by (fastforce simp: start_def)
qed

subsection \<open>The checks between the stages\<close>

lemma no_sparse_model:
  assumes "reached w a t 4 s4"
    and "spawn w (cmd_mapper a) (environ w) (fs s4) = Returned 0 t'"
    and "\<not> exists t' (joinpath (sparse_dir a) ''0'')"
  shows "main w a t =
     (SysExit 1, s4\<lparr>trace := trace s4 @ [Log INFO ''3/5 COLMAP: mapper (sparse SfM)'',
               Log INFO (''Running: '' @ join '' '' (cmd_mapper a)),
               Spawn (cmd_mapper a) None (Exited 0),
               Log ERROR (''Sparse model not found at '' @ path_str (joinpath (sparse_dir a) ''0'')
                          @ ''. Mapper may have failed.'')], fs := t'\<rparr>)"
    and "spawned (trace (snd (main w a t)))
         = [cmd_feature a (colmap_mask_args s4), cmd_match a, cmd_mapper a]"
proof -
  have "main w a t = seq (sparse_reconstruction w a # drop 5 (stages w a)) s4"
    using main_from[OF assms(1)] by (simp add: stages_def)
  then show m: "main w a t =
     (SysExit 1, s4\<lparr>trace := trace s4 @ [Log INFO ''3/5 COLMAP: mapper (sparse SfM)'',
               Log INFO (''Running: '' @ join '' '' (cmd_mapper a)),
               Spawn (cmd_mapper a) None (Exited 0),
               Log ERROR (''Sparse model not found at '' @ path_str (joinpath (sparse_dir a) ''0'')
                          @ ''. Mapper may have failed.'')], fs := t'\<rparr>)"
    using sparse_reconstruction_returned[OF assms(2)] assms(3) by simp
  have "procs (trace s4) = map ok (take 2 (plan w a (colmap_mask_args s4)))"
    using reached_procs[OF _ assms(1)] by (simp add: progress_def)
  then show "spawned (trace (snd (main w a t)))
         = [cmd_feature a (colmap_mask_args s4), cmd_match a, cmd_mapper a]"
    unfolding m by (simp add: spawned_def plan_def ok_def)
qed

lemma no_undistorted_data:
  assumes "reached w a t 5 s5"
    and "spawn w (cmd_undistort a) (environ w) (fs s5) = Returned 0 t'"
    and "\<not> exists t' (brush_images_path a) \<or> \<not> exists t' (brush_sparse_path a)"
  shows "main w a t =
     (SysExit 1, s5\<lparr>trace := trace s5 @
               [Log INFO ''4/5 COLMAP: image_undistorter (creates dense/0/images + dense/0/sparse)'',
                Log INFO (''Running: '' @ join '' '' (cmd_undistort a)),
                Spawn (cmd_undistort a) None (Exited 0),
                Log ERROR (''Expected '' @ path_str (brush_images_path a) @ '' and ''
                           @ path_str (brush_sparse_path a) @ '' to exist after undistort.'')],
               fs := t'\<rparr>)"
    and "spawned (trace (snd (main w a t)))
         = [cmd_feature a (colmap_mask_args s5), cmd_match a, cmd_mapper a, cmd_undistort a]"
    and "Copy x y \<notin> set (trace (snd (main w a t)))"
proof -
  have "main w a t = seq (undistort w a # drop 6 (stages w a)) s5"
    using main_from[OF assms(1)] by (simp add: stages_def)
  then show m: "main w a t =
     (SysExit 1, s5\<lparr>trace := trace s5 @
               [Log INFO ''4/5 COLMAP: image_undistorter (creates dense/0/images + dense/0/sparse)'',
                Log INFO (''Running: '' @ join '' '' (cmd_undistort a)),
                Spawn (cmd_undistort a) None (Exited 0),
                Log ERROR (''Expected '' @ path_str (brush_images_path a) @ '' and ''
                           @ path_str (brush_sparse_path a) @ '' to exist after undistort.'')],
               fs := t'\<rparr>)"
    using undistort_returned[OF assms(2)] assms(3) by auto
  have "procs (trace s5) = map ok (take 3 (plan w a (colmap_mask_args s5)))"
    using reached_procs[OF _ assms(1)] by (simp add: progress_def)
  then show "spawned (trace (snd (main w a t)))
         = [cmd_feature a (colmap_mask_args s5), cmd_match a, cmd_mapper a, cmd_undistort a]"
    unfolding m by (simp add: spawned_def plan_def ok_def)
  show "Copy x y \<notin> set (trace (snd (main w a t)))"
    unfolding m using reached_no_copy[OF assms(1), of x y] by simp
qed

lemma wiping_run4:
  obtains s4 where "reached wiping_world demo_args demo_fs 4 s4" "fs s4 = Dir []"
    "colmap_mask_args s4 = [''--ImageReader.mask_path'', ''masks'']"
proof -
  define s1 where "s1 = snd (checks_and_setup demo_args (start demo_fs))"
  define s2 where "s2 = snd (auto_mask_detection demo_args s1)"
  have f0: "fs (start demo_fs) = demo_fs" by (simp add: start_def)
  note r1 = demo_setup[OF f0, folded s1_def]
  note r2 = demo_detection[OF r1(2), folded s2_def]
  have sp3: "spawn wiping_world (cmd_feature demo_args (colmap_mask_args s2)) (environ wiping_world) (fs s2)
             = Returned 0 (Dir [])"
    by (simp add: wiping_world_def cmd_feature_def)
  note r3 = feature_extraction_returned[OF sp3]
  define s3 where "s3 = snd (feature_extraction wiping_world demo_args s2)"
  have s3: "fst (feature_extraction wiping_world demo_args s2) = Ok" "fs s3 = Dir []"
    "colmap_mask_args s3 = colmap_mask_args s2"
    unfolding s3_def r3 by simp_all
  have sp4: "spawn wiping_world (cmd_match demo_args) (environ wiping_world) (fs s3) = Returned 0 (Dir [])"
    using s3(2) by (simp add: wiping_world_def cmd_match_def)
  note r4 = matching_returned[OF sp4]
  define s4 where "s4 = snd (matching wiping_world demo_args s3)"
  have s4: "fst (matching wiping_world demo_args s3) = Ok" "fs s4 = Dir []"
    "colmap_mask_args s4 = colmap_mask_args s3"
    unfolding s4_def r4 by simp_all
  have "seq (take 4 (stages wiping_world demo_args)) (start demo_fs)
        = seq [checks_and_setup demo_args, auto_mask_detection demo_args,
               feature_extraction wiping_world demo_args, matching wiping_world demo_args]
            (start demo_fs)"
    by (simp add: stages_def)
  also have "\<dots> = seq [auto_mask_detection demo_args,
               feature_extraction wiping_world demo_args, matching wiping_world demo_args] s1"
    unfolding s1_def by (rule seq_Cons_ok) (rule demo_setup(1)[OF f0])
  also have "\<dots> = seq [feature_extraction wiping_world demo_args, matching wiping_world demo_args] s2"
    unfolding s2_def by (rule seq_Cons_ok) (rule demo_detection(1)[OF r1(2)])
  also have "\<dots> = seq [matching wiping_world demo_args] s3"
    unfolding s3_def by (rule seq_Cons_ok) (rule s3(1))
  also have "\<dots> = seq [] s4"
    unfolding s4_def by (rule seq_Cons_ok) (rule s4(1))
  finally have "reached wiping_world demo_args demo_fs 4 s4" by (simp add: reached_def)
  moreover have "colmap_mask_args s4 = [''--ImageReader.mask_path'', ''masks'']"
    using s4(3) s3(3) r2(3) by simp
  ultimately show ?thesis using s4(2) that by blast
qed

text \<open>
  C4, as amended. Existence checks stand after two of the external calls, the mapper and
  the undistorter. When the mapper has returned 0 and \<open>sparse/0\<close> does not exist, the run
  exits with 1 right after the error line, and the undistorter is never started. When the
  undistorter has returned 0 and \<open>dense/0/images\<close> or \<open>dense/0/sparse\<close> does not exist,
  the run exits with 1 right after the error line: no mask has been copied and Brush is
  never started. The feature extractor and the matcher are followed by no check: whatever
  file system they leave behind, a return code of 0 lets their section fall through.
\<close>

theorem stage_output_checks:
  "(reached w a t 4 s4 \<and> spawn w (cmd_mapper a) (environ w) (fs s4) = Returned 0 t1
      \<and> \<not> exists t1 (joinpath (sparse_dir a) ''0'')
    \<longrightarrow> fst (main w a t) = SysExit 1 \<and> exit_status (fst (main w a t)) = 1
        \<and> spawned (trace (snd (main w a t)))
            = [cmd_feature a (colmap_mask_args s4), cmd_match a, cmd_mapper a]
        \<and> trace (snd (main w a t)) = trace s4 @
             [Log INFO ''3/5 COLMAP: mapper (sparse SfM)'',
              Log INFO (''Running: '' @ join '' '' (cmd_mapper a)),
              Spawn (cmd_mapper a) None (Exited 0),
              Log ERROR (''Sparse model not found at '' @ path_str (joinpath (sparse_dir a) ''0'')
                         @ ''. Mapper may have failed.'')])
   \<and> (reached w a t 5 s5 \<and> spawn w (cmd_undistort a) (environ w) (fs s5) = Returned 0 t2
      \<and> (\<not> exists t2 (brush_images_path a) \<or> \<not> exists t2 (brush_sparse_path a))
    \<longrightarrow> fst (main w a t) = SysExit 1 \<and> exit_status (fst (main w a t)) = 1
        \<and> spawned (trace (snd (main w a t)))
            = [cmd_feature a (colmap_mask_args s5), cmd_match a, cmd_mapper a, cmd_undistort a]
        \<and> (\<forall>x y. Copy x y \<notin> set (trace (snd (main w a t))))
        \<and> trace (snd (main w a t)) = trace s5 @
             [Log INFO ''4/5 COLMAP: image_undistorter (creates dense/0/images + dense/0/sparse)'',
              Log INFO (''Running: '' @ join '' '' (cmd_undistort a)),
              Spawn (cmd_undistort a) None (Exited 0),
              Log ERROR (''Expected '' @ path_str (brush_images_path a) @ '' and ''
                         @ path_str (brush_sparse_path a) @ '' to exist after undistort.'')])
   \<and> (spawn w (cmd_feature a (colmap_mask_args s)) (environ w) (fs s) = Returned 0 t3
    \<longrightarrow> fst (feature_extraction w a s) = Ok \<and> fs (snd (feature_extraction w a s)) = t3)
   \<and> (spawn w (cmd_match a) (environ w) (fs s) = Returned 0 t3
    \<longrightarrow> fst (matching w a s) = Ok \<and> fs (snd (matching w a s)) = t3)"
proof (intro conjI impI)
  assume h: "reached w a t 4 s4 \<and> spawn w (cmd_mapper a) (environ w) (fs s4) = Returned 0 t1
      \<and> \<not> exists t1 (joinpath (sparse_dir a) ''0'')"
  then have r: "reached w a t 4 s4" and sp: "spawn w (cmd_mapper a) (environ w) (fs s4) = Returned 0 t1"
    and ne: "\<not> exists t1 (joinpath (sparse_dir a) ''0'')" by auto
  note m = no_sparse_model[OF r sp ne]
  show "fst (main w a t) = SysExit 1" "exit_status (fst (main w a t)) = 1"
    unfolding m(1) by (simp_all add: exit_status_def)
  show "spawned (trace (snd (main w a t)))
            = [cmd_feature a (colmap_mask_args s4), cmd_match a, cmd_mapper a]"
    by (rule m(2))
  show "trace (snd (main w a t)) = trace s4 @
             [Log INFO ''3/5 COLMAP: mapper (sparse SfM)'',
              Log INFO (''Running: '' @ join '' '' (cmd_mapper a)),
              Spawn (cmd_mapper a) None (Exited 0),
              Log ERROR (''Sparse model not found at '' @ path_str (joinpath (sparse_dir a) ''0'')
                         @ ''. Mapper may have failed.'')]"
    unfolding m(1) by simp
next
  assume h: "reached w a t 5 s5 \<and> spawn w (cmd_undistort a) (environ w) (fs s5) = Returned 0 t2
      \<and> (\<not> exists t2 (brush_images_path a) \<or> \<not> exists t2 (brush_sparse_path a))"
  then have r: "reached w a t 5 s5" and sp: "spawn w (cmd_undistort a) (environ w) (fs s5) = Returned 0 t2"
    and ne: "\<not> exists t2 (brush_images_path a) \<or> \<not> exists t2 (brush_sparse_path a)" by auto
  note m = no_undistorted_data[OF r sp ne]
  show "fst (main w a t) = SysExit 1" "exit_status (fst (main w a t)) = 1"
    unfolding m(1) by (simp_all add: exit_status_def)
  show "spawned (trace (snd (main w a t)))
            = [cmd_feature a (colmap_mask_args s5), cmd_match a, cmd_mapper a, cmd_undistort a]"
    by (rule m(2))
  show "\<forall>x y. Copy x y \<notin> set (trace (snd (main w a t)))"
    using m(3) by blast
  show "trace (snd (main w a t)) = trace s5 @
             [Log INFO ''4/5 COLMAP: image_undistorter (creates dense/0/images + dense/0/sparse)'',
              Log INFO (''Running: '' @ join '' '' (cmd_undistort a)),
              Spawn (cmd_undistort a) None (Exited 0),
              Log ERROR (''Expected '' @ path_str (brush_images_path a) @ '' and ''
                         @ path_str (brush_sparse_path a) @ '' to exist after undistort.'')]"
    unfolding m(1) by simp
next
  assume sp: "spawn w (cmd_feature a (colmap_mask_args s)) (environ w) (fs s) = Returned 0 t3"
  show "fst (feature_extraction w a s) = Ok" "fs (snd (feature_extraction w a s)) = t3"
    unfolding feature_extraction_returned[OF sp] by simp_all
next
  assume sp: "spawn w (cmd_match a) (environ w) (fs s) = Returned 0 t3"
  show "fst (matching w a s) = Ok" "fs (snd (matching w a s)) = t3"
    unfolding matching_returned[OF sp] by simp_all
qed

theorem stage_output_checks_witness:
  "\<not> exists (Dir []) (joinpath (sparse_dir demo_args) ''0'')
   \<and> fst (main wiping_world demo_args demo_fs) = SysExit 1
   \<and> exit_status (fst (main wiping_world demo_args demo_fs)) = 1
   \<and> length (spawned (trace (snd (main wiping_world demo_args demo_fs)))) = 3"
proof -
  from wiping_run4 obtain s4 where r: "reached wiping_world demo_args demo_fs 4 s4" "fs s4 = Dir []"
    by blast
  have sp: "spawn wiping_world (cmd_mapper demo_args) (environ wiping_world) (fs s4) = Returned 0 (Dir [])"
    using r(2) by (simp add: wiping_world_def cmd_mapper_def)
  have ne: "\<not> exists (Dir []) (joinpath (sparse_dir demo_args) ''0'')"
    by (simp add: exists_def joinpath_def sparse_dir_def demo_args_def)
  note th = stage_output_checks[where w = wiping_world and a = demo_args and t = demo_fs
      and ?s4.0 = s4 and ?t1.0 = "Dir []"]
  from th r(1) sp ne have "fst (main wiping_world demo_args demo_fs) = SysExit 1"
    "exit_status (fst (main wiping_world demo_args demo_fs)) = 1"
    "spawned (trace (snd (main wiping_world demo_args demo_fs)))
       = [cmd_feature demo_args (colmap_mask_args s4), cmd_match demo_args, cmd_mapper demo_args]"
    by blast+
  with ne show ?thesis by simp
qed

text \<open>
  The claim as stated fails: no check follows the feature extractor. In this world it
  returns 0 and leaves an empty file system behind (no database, no project directory);
  the matcher and the mapper are started all the same, and the run ends only at the check
  after the mapper.
\<close>

theorem no_check_after_feature_extractor_counterexample:
  "spawn wiping_world (cmd_feature demo_args [''--ImageReader.mask_path'', ''masks''])
      (environ wiping_world) demo_fs1 = Returned 0 (Dir [])
   \<and> fst (main wiping_world demo_args demo_fs) = SysExit 1
   \<and> spawned (trace (snd (main wiping_world demo_args demo_fs)))
       = [cmd_feature demo_args [''--ImageReader.mask_path'', ''masks''],
          cmd_match demo_args, cmd_mapper demo_args]"
proof -
  from wiping_run4 obtain s4 where r: "reached wiping_world demo_args demo_fs 4 s4" "fs s4 = Dir []"
    "colmap_mask_args s4 = [''--ImageReader.mask_path'', ''masks'']"
    by blast
  have sp: "spawn wiping_world (cmd_mapper demo_args) (environ wiping_world) (fs s4) = Returned 0 (Dir [])"
    using r(2) by (simp add: wiping_world_def cmd_mapper_def)
  have ne: "\<not> exists (Dir []) (joinpath (sparse_dir demo_args) ''0'')"
    by (simp add: exists_def joinpath_def sparse_dir_def demo_args_def)
  note m = no_sparse_model[OF r(1) sp ne]
  have "spawn wiping_world (cmd_feature demo_args [''--ImageReader.mask_path'', ''masks''])
      (environ wiping_world) demo_fs1 = Returned 0 (Dir [])"
    by (simp add: wiping_world_def cmd_feature_def)
  moreover have "fst (main wiping_world demo_args demo_fs) = SysExit 1" unfolding m(1) by simp
  ultimately show ?thesis using m(2) r(3) by simp
qed

subsection \<open>Mask discovery\<close>


lemma list_ex_remdups: "list_ex P (remdups xs) = list_ex P xs"
  by (simp add: list_ex_iff)







end
